(* ===== verification/Bus_Prelude.thy ===== *)
theory Bus_Prelude
  imports Main "HOL-Library.Word"
begin

text \<open>
  Shared vocabulary of the message-bus development: the machine types the Rust code
  uses (\<open>u64\<close> counters and message ids as 64-bit words), the model of a Rust panic
  (\<open>unwrap\<close> on an error, \<open>unimplemented!()\<close>, \<open>panic!\<close>) as the left side of a sum,
  and the generic word and list lemmas that the component theories share.
\<close>

type_synonym u64 = "64 word"
type_synonym mid = u64
type_synonym type_tag = string

text \<open>
  A Rust panic, with the source's message. A computation of the model that may panic
  returns \<open>panic + 'a\<close>; \<open>Inl\<close> is the panic.
\<close>

datatype panic = Panic string

type_synonym 'a may_panic = "panic + 'a"

text \<open>Rust's \<open>Result<T, E>\<close>; \<open>map_result f g\<close> is \<open>.map(f).map_err(g)\<close>.\<close>

datatype ('a, 'e) result = Ok 'a | Err 'e

text \<open>\<open>Result::unwrap\<close>: the \<open>Err\<close> case panics.\<close>

definition unwrap :: "('a, 'e) result \<Rightarrow> 'a may_panic" where
  "unwrap r = (case r of Ok a \<Rightarrow> Inr a | Err _ \<Rightarrow> Inl (Panic ''called Result::unwrap() on an Err value''))"

text \<open>\<open>Option::unwrap\<close>: \<open>None\<close> panics.\<close>

definition option_unwrap :: "'a option \<Rightarrow> 'a may_panic" where
  "option_unwrap x = (case x of Some a \<Rightarrow> Inr a | None \<Rightarrow> Inl (Panic ''called Option::unwrap() on a None value''))"

text \<open>Joining strings with a separator, as \<open>format!\<close> lists type arguments.\<close>

fun join_with :: "char \<Rightarrow> string list \<Rightarrow> string" where
  "join_with c [] = []"
| "join_with c [x] = x"
| "join_with c (x # y # zs) = x @ c # join_with c (y # zs)"

named_theorems bus_simps \<open>equations of the model that the component proofs unfold\<close>

subsection \<open>Words\<close>

lemma unat_incr_below:
  fixes c l :: "'a::len word"
  assumes "c < l"
  shows "unat (c + 1) = Suc (unat c)"
proof -
  have "unat c < unat l" using assms by (simp add: word_less_nat_alt)
  moreover have "unat l < 2 ^ LENGTH('a)" by simp
  ultimately have "unat c + 1 < 2 ^ LENGTH('a)" by linarith
  then show ?thesis by (simp add: unat_word_ariths)
qed

lemma unat_decr_pos:
  fixes c :: "'a::len word"
  assumes "c \<noteq> 0"
  shows "unat (c - 1) = unat c - 1"
  using assms by (simp add: unat_minus_one)

lemma word_decr_Suc:
  fixes x :: "'a::len word"
  assumes "unat x = Suc k"
  shows "unat (x - 1) = k \<and> x - 1 \<le> x"
proof -
  have "x \<noteq> 0" using assms by auto
  then have "unat (x - 1) = unat x - 1" by (rule unat_decr_pos)
  with assms show ?thesis by (simp add: word_le_nat_alt)
qed

lemma word_zero_minus_one_max:
  "unat ((0::'a::len word) - 1) = 2 ^ LENGTH('a) - 1"
  by (simp add: unsigned_minus_1_eq_mask mask_eq_exp_minus_1)

subsection \<open>Lists\<close>

lemma length_filter_update:
  "i < length xs \<Longrightarrow>
   length (filter P (xs[i := v])) + (if P (xs ! i) then 1 else 0) =
   length (filter P xs) + (if P v then 1 else 0)"
proof (induction xs arbitrary: i)
  case Nil
  then show ?case by simp
next
  case (Cons x xs)
  then show ?case by (cases i) auto
qed

lemma join_with_Cons: "join_with c (x # xs) = x @ concat (map (Cons c) xs)"
  by (induction xs arbitrary: x) auto

lemma set_update_memD: "y \<in> set (xs[i := v]) \<Longrightarrow> y = v \<or> y \<in> set xs"
  using set_update_subset_insert by fastforce

lemma in_set_update_other: "i < length xs \<Longrightarrow> j < length xs \<Longrightarrow> j \<noteq> i \<Longrightarrow> xs ! j \<in> set (xs[i := v])"
  by (metis length_list_update nth_list_update_neq nth_mem)

lemma sum_list_update:
  fixes f :: "'a \<Rightarrow> nat"
  shows "i < length xs \<Longrightarrow> sum_list (map f (xs[i := v])) + f (xs ! i) = sum_list (map f xs) + f v"
proof (induction xs arbitrary: i)
  case (Cons x xs)
  show ?case
  proof (cases i)
    case (Suc k)
    with Cons.prems have "sum_list (map f (xs[k := v])) + f (xs ! k) = sum_list (map f xs) + f v"
      by (intro Cons.IH) simp
    with Suc show ?thesis by simp
  qed simp
qed simp

lemma count_list_pos: "0 < count_list xs x \<longleftrightarrow> x \<in> set xs"
  by (metis count_list_0_iff gr0I less_irrefl)

lemma count_list_update:
  "i < length xs \<Longrightarrow>
   count_list (xs[i := y]) a = count_list xs a - (if xs ! i = a then 1 else 0) + (if y = a then 1 else 0)"
proof (induction xs arbitrary: i)
  case Nil
  then show ?case by simp
next
  case (Cons x xs)
  have pos: "0 < count_list xs (xs ! j)" if "j < length xs" for j
    using nth_mem [OF that] by (simp only: count_list_pos)
  from Cons pos show ?case by (cases i) auto
qed

lemma list_all_update: "list_all P xs \<Longrightarrow> P y \<Longrightarrow> list_all P (xs[i := y])"
  by (auto simp: list_all_iff dest: set_update_subset_insert [THEN subsetD])

end
