(* ===== verification/Envelope.thy ===== *)
theory Envelope
  imports Bus_Prelude
begin

text \<open>
  The message envelope. A concrete Rust type is a path name with its generic
  arguments (\<open>Msg<i16>\<close> is \<open>RTy ''Msg'' [RTy ''i16'' []]\<close>); the runtime type
  identity (\<open>TypeId\<close>) of a value is this type itself. A boxed value
  (\<open>Box<dyn Message>\<close>, \<open>Box<dyn Any>\<close>, \<open>Box<dyn StdSyncSendError>\<close>) is a value of
  the universe \<open>'u\<close> together with its runtime type. A typed value of static type
  \<open>T\<close> is a plain \<open>'u\<close>; the operations that erase or recover it take \<open>T\<close> as an
  argument, as the Rust code takes it as a type parameter.
  The trait \<open>IntoBoxedMessage\<close> lives in \<open>envelop.rs\<close>, which is not under
  \<open>src/\<close>; it is modelled from the spec (section 4.1).
\<close>

datatype rty = RTy string "rty list"

datatype 'u dyn = Dyn (dyn_ty: rty) (dyn_val: 'u)

text \<open>
  \<open>TypeTagged::type_tag_()\<close>: the textual tag of a type, its name followed by the tags
  of its generic arguments (spec section 3: "generic instantiations include parameter
  tags recursively"); the derive macro's rendering is compared with it in theory
  \<open>Derive\<close>.
\<close>

fun tag_of :: "rty \<Rightarrow> type_tag" where
  "tag_of (RTy n args) =
     n @ (if args = [] then [] else ''<'' @ join_with (CHR '','') (map tag_of args) @ ''>'')"

text \<open>\<open>msg.into_boxed()\<close>: \<open>Box::new(msg) as Box<dyn Message>\<close>.\<close>

definition into_boxed :: "rty \<Rightarrow> 'u \<Rightarrow> 'u dyn" where
  "into_boxed T m = Dyn T m"

text \<open>
  \<open>boxed.as_any_boxed().downcast::<T>()\<close>: succeeds exactly when the runtime type
  of the box is \<open>T\<close>; on failure the box is handed back (\<open>Err(self)\<close>).
\<close>

definition downcast :: "rty \<Rightarrow> 'u dyn \<Rightarrow> 'u dyn + 'u" where
  "downcast T b = (if dyn_ty b = T then Inr (dyn_val b) else Inl b)"

lemma downcast_into_boxed [simp]: "downcast T (into_boxed T m) = Inr m"
  by (simp add: downcast_def into_boxed_def)

lemma downcast_other_type [simp]: "T' \<noteq> T \<Longrightarrow> downcast T' (into_boxed T m) = Inl (into_boxed T m)"
  by (simp add: downcast_def into_boxed_def)

end
