(* ===== verification/Errors.thy ===== *)
theory Errors
  imports Envelope
begin

text \<open>
  The error envelope of \<open>src/src/error.rs\<close>: \<open>SendError<M>\<close>, \<open>Error<M, E>\<close> and
  their conversions between typed and erased forms. The typed handler error \<open>E\<close> is
  a value of the universe together with its runtime type, passed as an argument where
  the Rust code boxes it. \<open>Error<M>\<close> is \<open>Error<M, VoidError>\<close>: \<open>VoidError\<close> has
  no values, so a well-typed \<open>Error<M>\<close> never holds \<open>Other\<close>; the predicate
  \<open>void_typed\<close> states this. \<open>erased_serde::Error\<close> is opaque: its message only.
  Every \<open>panic!\<close> of a conversion is an \<open>Inl\<close> of the result.
\<close>

datatype 'm send_error = Closed 'm | Full 'm

datatype ('m, 'u) error =
    SendError "'m send_error"
  | NoResponse
  | NoReceivers
  | AddListenerError
  | MessageCastError
  | Other 'u
  | Serialization string
  | OtherBoxed "'u dyn"
  | WrongMessageType 'm

primrec send_error_msg :: "'m send_error \<Rightarrow> 'm" where
  "send_error_msg (Closed m) = m"
| "send_error_msg (Full m) = m"

text \<open>\<open>SendError::into_boxed\<close> (lines 44--51).\<close>

primrec send_error_into_boxed :: "rty \<Rightarrow> 'u send_error \<Rightarrow> 'u dyn send_error" where
  "send_error_into_boxed T (Closed m) = Closed (into_boxed T m)"
| "send_error_into_boxed T (Full m) = Closed (into_boxed T m)"

text \<open>\<open>Error::into_dyn\<close> (lines 84--96): \<open>E\<close> is the runtime type of the typed error.\<close>

fun into_dyn :: "rty \<Rightarrow> ('m, 'u) error \<Rightarrow> ('m, 'u) error" where
  "into_dyn E (SendError inner) = SendError inner"
| "into_dyn E NoResponse = NoReceivers"
| "into_dyn E NoReceivers = NoReceivers"
| "into_dyn E (Serialization s) = Serialization s"
| "into_dyn E (Other inner) = OtherBoxed (Dyn E inner)"
| "into_dyn E (OtherBoxed inner) = OtherBoxed inner"
| "into_dyn E (WrongMessageType inner) = WrongMessageType inner"
| "into_dyn E AddListenerError = AddListenerError"
| "into_dyn E MessageCastError = MessageCastError"

text \<open>
  \<open>Error::map::<U>\<close> (lines 98--110): \<open>conv\<close> is \<open>U::from\<close> on a boxed error.
\<close>

fun error_map :: "('u dyn \<Rightarrow> 'u) \<Rightarrow> ('m, 'u) error \<Rightarrow> ('m, 'u) error may_panic" where
  "error_map conv (SendError inner) = Inr (SendError inner)"
| "error_map conv NoResponse = Inr NoReceivers"
| "error_map conv NoReceivers = Inr NoReceivers"
| "error_map conv (Serialization s) = Inr (Serialization s)"
| "error_map conv (Other _) = Inl (Panic ''expected boxed error!'')"
| "error_map conv (OtherBoxed inner) = Inr (Other (conv inner))"
| "error_map conv (WrongMessageType inner) = Inr (WrongMessageType inner)"
| "error_map conv AddListenerError = Inr AddListenerError"
| "error_map conv MessageCastError = Inr MessageCastError"

text \<open>\<open>Error::<(), E>::specify::<M>\<close> (lines 113--127).\<close>

fun specify :: "(unit, 'u) error \<Rightarrow> ('m, 'u) error may_panic" where
  "specify (SendError _) = Inl (Panic ''cannot specify type on typed error'')"
| "specify (WrongMessageType _) = Inl (Panic ''cannot specify type on typed error'')"
| "specify NoResponse = Inr NoReceivers"
| "specify NoReceivers = Inr NoReceivers"
| "specify (Serialization s) = Inr (Serialization s)"
| "specify (Other inner) = Inr (Other inner)"
| "specify (OtherBoxed inner) = Inr (OtherBoxed inner)"
| "specify AddListenerError = Inr AddListenerError"
| "specify MessageCastError = Inr MessageCastError"

text \<open>\<open>From<oneshot::error::RecvError>\<close> (lines 129--133): a dropped sender.\<close>

definition from_recv_error :: "('m, 'u) error" where
  "from_recv_error = NoResponse"

text \<open>\<open>Error::<Box<dyn Message>>::from_typed::<M>\<close> (lines 135--153).\<close>

fun from_typed :: "rty \<Rightarrow> ('u, 'u) error \<Rightarrow> ('u dyn, 'u) error" where
  "from_typed T (SendError (Closed m)) = SendError (Closed (into_boxed T m))"
| "from_typed T (SendError (Full m)) = SendError (Full (into_boxed T m))"
| "from_typed T (WrongMessageType m) = WrongMessageType (into_boxed T m)"
| "from_typed T NoResponse = NoReceivers"
| "from_typed T NoReceivers = NoReceivers"
| "from_typed T (Serialization s) = Serialization s"
| "from_typed T (Other inner) = Other inner"
| "from_typed T (OtherBoxed inner) = OtherBoxed inner"
| "from_typed T AddListenerError = AddListenerError"
| "from_typed T MessageCastError = MessageCastError"

text \<open>
  \<open>Error::map_msg\<close>, used by \<open>Receiver::send\<close> to recover the typed message from an
  erased send error; it is not part of \<open>error.rs\<close> as shipped and is modelled from
  its use: the message payload is mapped, every other variant kept.
\<close>

fun map_msg :: "('m \<Rightarrow> 'n) \<Rightarrow> ('m, 'u) error \<Rightarrow> ('n, 'u) error" where
  "map_msg f (SendError (Closed m)) = SendError (Closed (f m))"
| "map_msg f (SendError (Full m)) = SendError (Full (f m))"
| "map_msg f (WrongMessageType m) = WrongMessageType (f m)"
| "map_msg f NoResponse = NoResponse"
| "map_msg f NoReceivers = NoReceivers"
| "map_msg f (Serialization s) = Serialization s"
| "map_msg f (Other inner) = Other inner"
| "map_msg f (OtherBoxed inner) = OtherBoxed inner"
| "map_msg f AddListenerError = AddListenerError"
| "map_msg f MessageCastError = MessageCastError"

subsection \<open>Classifiers\<close>

fun is_other :: "('m, 'u) error \<Rightarrow> bool" where
  "is_other (Other _) = True"
| "is_other _ = False"

fun is_other_boxed :: "('m, 'u) error \<Rightarrow> bool" where
  "is_other_boxed (OtherBoxed _) = True"
| "is_other_boxed _ = False"

fun carries_message :: "('m, 'u) error \<Rightarrow> bool" where
  "carries_message (SendError _) = True"
| "carries_message (WrongMessageType _) = True"
| "carries_message _ = False"

fun is_full :: "'m send_error \<Rightarrow> bool" where
  "is_full (Full _) = True"
| "is_full (Closed _) = False"

definition void_typed :: "('m, 'u) error \<Rightarrow> bool" where
  "void_typed e \<longleftrightarrow> \<not> is_other e"

text \<open>
  \<open>VoidError\<close> (lines 15--33), the default \<open>E\<close> of \<open>Error<M, E>\<close>: an enum without
  variants whose three \<open>TypeTagged\<close> methods all return
  \<open>type_name::<VoidError>()\<close>, the full path of the type, where a derived tag is the
  bare name.
\<close>

definition void_error_ty :: rty where
  "void_error_ty = RTy ''messagebus::error::VoidError'' []"

definition void_error_tag :: type_tag where
  "void_error_tag = tag_of void_error_ty"

lemmas error_conv_simps = into_dyn.simps error_map.simps specify.simps from_typed.simps
  map_msg.simps is_other.simps is_other_boxed.simps carries_message.simps is_full.simps

subsection \<open>Properties of the conversions\<close>

text \<open>
  C28: the two ways the receiver erases a send error disagree. \<open>from_typed\<close> keeps the
  \<open>Full\<close>/\<open>Closed\<close> distinction, \<open>SendError::into_boxed\<close> (used by
  \<open>ReceiverWrapper::send_boxed\<close>) turns \<open>Full\<close> into \<open>Closed\<close>: the two agree
  exactly on the errors that are not \<open>Full\<close>.
\<close>

theorem into_boxed_agrees_iff_not_full:
  "from_typed T (SendError e) = SendError (send_error_into_boxed T e) \<longleftrightarrow> \<not> is_full e"
  by (cases e) (simp_all add: into_boxed_def)

text \<open>
  Erasing the typed handler error yields a well-typed \<open>Error<M>\<close> (no typed
  \<open>Other\<close>), never \<open>NoResponse\<close>, and a handler error is boxed with the runtime
  type of \<open>E\<close>.
\<close>

theorem into_dyn_erases:
  "void_typed (into_dyn E e) \<and> into_dyn E e \<noteq> NoResponse \<and>
   into_dyn E (Other v) = OtherBoxed (Dyn E v)"
  by (cases e) (simp_all add: void_typed_def)

text \<open>
  C29: \<open>map\<close> undoes \<open>into_dyn\<close>. When \<open>U::from\<close> recovers the value of a box of
  type \<open>E\<close>, mapping an erased error back gives the original error, except that
  \<open>NoResponse\<close> has become \<open>NoReceivers\<close>; this holds for every error that did not
  already hold a boxed error.
\<close>

theorem error_map_into_dyn_roundtrip:
  assumes conv: "\<forall>v. conv (Dyn E v) = v"
    and unboxed: "\<not> is_other_boxed e"
  shows "error_map conv (into_dyn E e) = Inr (if e = NoResponse then NoReceivers else e)"
  using assms by (cases e) simp_all

theorem error_map_into_dyn_roundtrip_witness:
  "error_map dyn_val (into_dyn (RTy ''Error'' []) (Other (7::int) :: (unit, int) error))
     = Inr (Other 7)"
  using error_map_into_dyn_roundtrip [of dyn_val "RTy ''Error'' []" "Other (7::int) :: (unit, int) error"]
  by simp

text \<open>\<open>map\<close> panics exactly on a typed \<open>Other\<close> error.\<close>

theorem error_map_panics_iff: "isl (error_map conv e) \<longleftrightarrow> is_other e"
  by (cases e) simp_all

text \<open>\<open>specify\<close> panics exactly on the variants that carry a message.\<close>

theorem specify_panics_iff:
  "isl (specify e :: ('m, 'u) error may_panic) \<longleftrightarrow> carries_message e"
  by (cases e) simp_all

end
