(* ===== verification/Notify.thy ===== *)
theory Notify
  imports Bus_Prelude
begin

text \<open>
  The broadcast primitive the receiver context is built on: \<open>tokio::sync::Notify\<close>.
  It is a library the crate calls, not code of the repository, so it is modelled from
  tokio's documented semantics and not mapped to a source line:
  \<^item> \<open>notified()\<close> creates a future that remembers how many times
    \<open>notify_waiters\<close> had been called; a later \<open>notify_waiters\<close> completes it even
    if it has not been polled yet;
  \<^item> polling the future first consumes a stored permit, then completes if
    \<open>notify_waiters\<close> was called since creation, and otherwise parks the task in a
    FIFO list of waiters;
  \<^item> \<open>notify_waiters()\<close> wakes every parked task and stores no permit;
  \<^item> \<open>notify_one()\<close> wakes the first parked task, or stores a single permit when
    no task is parked.
  Tasks are numbered by \<open>nat\<close>.
\<close>

record notify =
  n_calls :: nat
  n_permit :: bool
  n_waiters :: "nat list"

definition notify_new :: notify where
  "notify_new = \<lparr>n_calls = 0, n_permit = False, n_waiters = []\<rparr>"

text \<open>\<open>notify.notified()\<close>: the snapshot the future keeps.\<close>

definition notified :: "notify \<Rightarrow> nat" where
  "notified n = n_calls n"

text \<open>Polling the \<open>Notified\<close> future of task \<open>t\<close> created at snapshot \<open>snap\<close>.\<close>

definition poll_notified :: "nat \<Rightarrow> nat \<Rightarrow> notify \<Rightarrow> bool \<times> notify" where
  "poll_notified t snap n =
     (if n_permit n then (True, n\<lparr>n_permit := False\<rparr>)
      else if n_calls n \<noteq> snap then (True, n)
      else (False, n\<lparr>n_waiters := n_waiters n @ [t]\<rparr>))"

definition notify_waiters :: "notify \<Rightarrow> nat list \<times> notify" where
  "notify_waiters n = (n_waiters n, n\<lparr>n_calls := Suc (n_calls n), n_waiters := []\<rparr>)"

definition notify_one :: "notify \<Rightarrow> nat option \<times> notify" where
  "notify_one n =
     (case n_waiters n of
        [] \<Rightarrow> (None, n\<lparr>n_permit := True\<rparr>)
      | t # ts \<Rightarrow> (Some t, n\<lparr>n_waiters := ts\<rparr>))"

lemma notify_one_waiters:
  "notify_one n = (w, n') \<Longrightarrow> n_waiters n = (case w of None \<Rightarrow> [] | Some t \<Rightarrow> t # n_waiters n')"
  by (auto simp: notify_one_def split: list.splits)

lemma notify_one_calls [simp]: "n_calls (snd (notify_one n)) = n_calls n"
  by (simp add: notify_one_def split: list.splits)

lemma notify_waiters_wakes_all:
  "notify_waiters n = (ws, n') \<Longrightarrow> ws = n_waiters n \<and> n_waiters n' = [] \<and> n_calls n' = Suc (n_calls n)"
  by (auto simp: notify_waiters_def)

end
