(* ===== verification/Context.thy ===== *)
theory Context
  imports Notify
begin

text \<open>
  The per-subscription \<open>ReceiverContext\<close> of \<open>src/src/receiver.rs\<close> (lines 621--638)
  and the admission primitives on it: \<open>try_reserve\<close> (lines 417--440), the
  \<open>Permit\<close> token and its \<open>Drop\<close> (lines 453--464), \<open>permit_drop\<close>. The atomic
  counter \<open>processing\<close> is a \<open>u64\<close> with wrap-around: \<open>fetch_sub(1)\<close> on 0 wraps
  to \<open>2^64 - 1\<close>. The CAS loop of \<open>try_reserve\<close> is split into its two atomic
  operations (the load and the \<open>compare_exchange\<close>), so that the admission
  protocol (theory \<open>Admission\<close>) can interleave other tasks between them.
\<close>

record receiver_context =
  limit :: u64
  processing :: u64
  need_flush :: bool
  ready_flag :: bool
  flushed :: notify
  synchronized :: notify
  closed :: notify
  ready :: notify
  response :: notify
  init_sent :: bool

text \<open>The context built by \<open>Receiver::new\<close> (lines 680--691).\<close>

definition receiver_context_new :: "u64 \<Rightarrow> receiver_context" where
  "receiver_context_new l =
     \<lparr>limit = l, processing = 0, need_flush = False, ready_flag = False,
      flushed = notify_new, synchronized = notify_new, closed = notify_new,
      ready = notify_new, response = notify_new, init_sent = False\<rparr>"

text \<open>\<open>PermitDrop for ReceiverContext\<close>: \<open>processing.fetch_sub(1)\<close>, wrapping.\<close>

definition permit_drop :: "receiver_context \<Rightarrow> receiver_context" where
  "permit_drop c = c\<lparr>processing := processing c - 1\<rparr>"

text \<open>\<open>Permit\<close>: the \<open>fuse\<close> flag; the \<open>Arc\<close> points at the one context.\<close>

record permit =
  fuse :: bool

text \<open>\<open>Drop for Permit\<close>: an unfused permit gives its unit back.\<close>

definition drop_permit :: "permit \<Rightarrow> receiver_context \<Rightarrow> receiver_context" where
  "drop_permit p c = (if \<not> fuse p then permit_drop c else c)"

text \<open>
  One iteration of the \<open>try_reserve\<close> loop. The load (\<open>processing.load\<close>) either
  breaks with \<open>None\<close> (\<open>count \<ge> limit\<close>) or proceeds to the CAS with the value read;
  \<open>compare_exchange(count, count + 1)\<close> succeeds exactly when the counter still
  holds \<open>count\<close>, and otherwise the loop starts over.
\<close>

definition tr_load :: "receiver_context \<Rightarrow> u64 option" where
  "tr_load c = (let count = processing c in if count < limit c then Some count else None)"

definition tr_cas :: "u64 \<Rightarrow> receiver_context \<Rightarrow> receiver_context option" where
  "tr_cas count c =
     (if processing c = count then Some (c\<lparr>processing := count + 1\<rparr>) else None)"

text \<open>
  \<open>try_reserve\<close> run by a task that no other task interleaves with: the load and the
  CAS back to back. (Under contention the loop is the step relation of
  \<open>Admission\<close>.) A returned permit is unfused.
\<close>

definition try_reserve :: "receiver_context \<Rightarrow> (permit \<times> receiver_context) option" where
  "try_reserve c =
     (case tr_load c of
        None \<Rightarrow> None
      | Some count \<Rightarrow>
          (case tr_cas count c of
             Some c' \<Rightarrow> Some (\<lparr>fuse = False\<rparr>, c')
           | None \<Rightarrow> None))"

lemma tr_cas_after_load: "tr_load c = Some count \<Longrightarrow> tr_cas count c = Some (c\<lparr>processing := count + 1\<rparr>)"
  by (simp add: tr_load_def tr_cas_def Let_def split: if_splits)

lemma try_reserve_cases:
  "try_reserve c =
     (if processing c < limit c
      then Some (\<lparr>fuse = False\<rparr>, c\<lparr>processing := processing c + 1\<rparr>) else None)"
  by (simp add: try_reserve_def tr_load_def tr_cas_def Let_def)

end
