(* ===== verification/Admission.thy ===== *)
theory Admission
  imports Context
begin

text \<open>
  The admission protocol of one receiver under concurrency. Producer tasks run
  \<open>Receiver::reserve\<close> (lines 722--731 of \<open>src/src/receiver.rs\<close>: the
  \<open>try_reserve\<close> CAS loop, then parking on \<open>reserve_notify().notified()\<close> when no
  permit is left) and then either hand the message over with \<open>Receiver::send\<close>
  (lines 738--762: the strategy's enqueue, after which the permit is fused whatever
  the enqueue returned) or drop the permit unfused (\<open>Drop for Permit\<close>). The
  handler strategy answers every accepted message with an \<open>Event::Response\<close>, on
  which the event loop (lines 226--228) decrements \<open>processing\<close> and then signals
  \<open>response.notify_one()\<close>: two atomic steps another task can run between.
  \<open>Receiver::force_send\<close> (lines 764--785) enqueues without a permit.

  Each atomic operation is one rule of the step relation \<open>adm_step\<close>; the scheduler
  picks any enabled rule. \<open>handler_queue\<close> holds the messages the strategy has
  accepted and not yet answered (\<open>True\<close>: sent with a permit, \<open>False\<close>: force-sent).
  \<open>leaked\<close> is a ghost counter of permits fused by a failed \<open>send\<close>.
\<close>

datatype rpc =
    RStart            \<comment> \<open>about to run the load of \<open>try_reserve\<close>\<close>
  | RLoaded u64       \<comment> \<open>read \<open>count < limit\<close>, about to run the CAS\<close>
  | RFull             \<comment> \<open>\<open>try_reserve\<close> returned \<open>None\<close>, about to await the notify\<close>
  | RWaiting          \<comment> \<open>parked on the \<open>response\<close> notify\<close>
  | RHolding          \<comment> \<open>holds an unfused permit\<close>
  | RDone             \<comment> \<open>sent the message or dropped the permit\<close>

record adm_state =
  actx :: receiver_context
  rpcs :: "rpc list"
  handler_queue :: "bool list"
  in_response :: bool
  leaked :: nat

definition adm_init :: "nat \<Rightarrow> u64 \<Rightarrow> adm_state" where
  "adm_init n l =
     \<lparr>actx = receiver_context_new l, rpcs = replicate n RStart, handler_queue = [],
      in_response = False, leaked = 0\<rparr>"

primrec wake :: "nat option \<Rightarrow> rpc list \<Rightarrow> rpc list" where
  "wake None ps = ps"
| "wake (Some j) ps = ps[j := RStart]"

definition set_response :: "notify \<Rightarrow> receiver_context \<Rightarrow> receiver_context" where
  "set_response n c = c\<lparr>response := n\<rparr>"

inductive adm_step :: "adm_state \<Rightarrow> adm_state \<Rightarrow> bool" where
  load_ok:
    "i < length (rpcs s) \<Longrightarrow> rpcs s ! i = RStart \<Longrightarrow> tr_load (actx s) = Some count \<Longrightarrow>
     adm_step s (s\<lparr>rpcs := (rpcs s)[i := RLoaded count]\<rparr>)"
| load_full:
    "i < length (rpcs s) \<Longrightarrow> rpcs s ! i = RStart \<Longrightarrow> tr_load (actx s) = None \<Longrightarrow>
     adm_step s (s\<lparr>rpcs := (rpcs s)[i := RFull]\<rparr>)"
| cas_ok:
    "i < length (rpcs s) \<Longrightarrow> rpcs s ! i = RLoaded count \<Longrightarrow> tr_cas count (actx s) = Some c' \<Longrightarrow>
     adm_step s (s\<lparr>actx := c', rpcs := (rpcs s)[i := RHolding]\<rparr>)"
| cas_retry:
    "i < length (rpcs s) \<Longrightarrow> rpcs s ! i = RLoaded count \<Longrightarrow> tr_cas count (actx s) = None \<Longrightarrow>
     adm_step s (s\<lparr>rpcs := (rpcs s)[i := RStart]\<rparr>)"
| park:
    "i < length (rpcs s) \<Longrightarrow> rpcs s ! i = RFull \<Longrightarrow>
     poll_notified i (notified (response (actx s))) (response (actx s)) = (rdy, n') \<Longrightarrow>
     adm_step s (s\<lparr>actx := set_response n' (actx s),
                   rpcs := (rpcs s)[i := (if rdy then RStart else RWaiting)]\<rparr>)"
| send_ok:
    "i < length (rpcs s) \<Longrightarrow> rpcs s ! i = RHolding \<Longrightarrow>
     adm_step s (s\<lparr>actx := drop_permit \<lparr>fuse = True\<rparr> (actx s), rpcs := (rpcs s)[i := RDone],
                   handler_queue := handler_queue s @ [True]\<rparr>)"
| send_err:
    "i < length (rpcs s) \<Longrightarrow> rpcs s ! i = RHolding \<Longrightarrow>
     adm_step s (s\<lparr>actx := drop_permit \<lparr>fuse = True\<rparr> (actx s), rpcs := (rpcs s)[i := RDone],
                   leaked := Suc (leaked s)\<rparr>)"
| drop_unfused:
    "i < length (rpcs s) \<Longrightarrow> rpcs s ! i = RHolding \<Longrightarrow>
     adm_step s (s\<lparr>actx := drop_permit \<lparr>fuse = False\<rparr> (actx s), rpcs := (rpcs s)[i := RDone]\<rparr>)"
| respond:
    "handler_queue s = m # q \<Longrightarrow> \<not> in_response s \<Longrightarrow>
     adm_step s (s\<lparr>actx := (actx s)\<lparr>processing := processing (actx s) - 1\<rparr>,
                   handler_queue := q, in_response := True\<rparr>)"
| respond_notify:
    "in_response s \<Longrightarrow> notify_one (response (actx s)) = (w, n') \<Longrightarrow>
     adm_step s (s\<lparr>actx := set_response n' (actx s), rpcs := wake w (rpcs s),
                   in_response := False\<rparr>)"

text \<open>The same system with \<open>Receiver::force_send\<close> as a further step.\<close>

inductive adm_step_forced :: "adm_state \<Rightarrow> adm_state \<Rightarrow> bool" where
  permitted: "adm_step s t \<Longrightarrow> adm_step_forced s t"
| force_send: "adm_step_forced s (s\<lparr>handler_queue := handler_queue s @ [False]\<rparr>)"

inductive_simps adm_step_simps: "adm_step s t"
inductive_cases adm_step_elim: "adm_step s t"

definition holders :: "rpc list \<Rightarrow> nat" where
  "holders ps = length (filter (\<lambda>p. p = RHolding) ps)"

definition waiting_set :: "rpc list \<Rightarrow> nat set" where
  "waiting_set ps = {j. j < length ps \<and> ps ! j = RWaiting}"

text \<open>
  The admission invariant: the counter is exactly the number of unfused permits plus
  the messages awaiting their response plus the leaked permits, it is within the
  limit, every task about to CAS read a value below the limit, and the tasks parked
  on the \<open>response\<close> notify are exactly the waiting ones, each once.
\<close>

definition adm_inv :: "adm_state \<Rightarrow> bool" where
  "adm_inv s \<longleftrightarrow>
     unat (processing (actx s)) = holders (rpcs s) + length (handler_queue s) + leaked s \<and>
     processing (actx s) \<le> limit (actx s) \<and>
     (\<forall>count. RLoaded count \<in> set (rpcs s) \<longrightarrow> count < limit (actx s)) \<and>
     distinct (n_waiters (response (actx s))) \<and>
     set (n_waiters (response (actx s))) = waiting_set (rpcs s)"

subsection \<open>The admission invariant\<close>

lemma holders_update:
  "i < length ps \<Longrightarrow>
   holders (ps[i := v]) + (if ps ! i = RHolding then 1 else 0) = holders ps + (if v = RHolding then 1 else 0)"
  unfolding holders_def by (rule length_filter_update)

lemma holders_pos: "i < length ps \<Longrightarrow> ps ! i = RHolding \<Longrightarrow> 0 < holders ps"
  using nth_mem[of i ps] by (auto simp: holders_def filter_empty_conv)

lemma waiting_set_update:
  "i < length ps \<Longrightarrow>
   waiting_set (ps[i := v]) = (if v = RWaiting then insert i (waiting_set ps) else waiting_set ps - {i})"
  by (auto simp: waiting_set_def nth_list_update split: if_splits)

lemma waiting_set_update_same:
  "i < length ps \<Longrightarrow> ps ! i \<noteq> RWaiting \<Longrightarrow> v \<noteq> RWaiting \<Longrightarrow> waiting_set (ps[i := v]) = waiting_set ps"
  using waiting_set_update[of i ps v] by (auto simp: waiting_set_def)

lemma loaded_update:
  "RLoaded c \<in> set (ps[i := v]) \<Longrightarrow> v = RLoaded c \<or> RLoaded c \<in> set ps"
  by (auto dest: set_update_memD)

lemma adm_inv_init: "adm_inv (adm_init n l)"
  by (simp add: adm_inv_def adm_init_def receiver_context_new_def holders_def waiting_set_def notify_new_def)

lemma adm_step_inv: "adm_step s t \<Longrightarrow> adm_inv s \<Longrightarrow> adm_inv t"
proof (induction rule: adm_step.induct)
  case (load_ok i s count)
  then show ?case
    using holders_update[of i "rpcs s" "RLoaded count"]
    by (auto simp: adm_inv_def tr_load_def Let_def waiting_set_update_same dest: loaded_update split: if_splits)
next
  case (load_full i s)
  then show ?case
    using holders_update[of i "rpcs s" RFull]
    by (auto simp: adm_inv_def waiting_set_update_same dest: loaded_update)
next
  case (cas_ok i s count c')
  from cas_ok.hyps(1,2) have "RLoaded count \<in> set (rpcs s)" by (metis nth_mem)
  with cas_ok.prems have lt: "count < limit (actx s)" by (simp add: adm_inv_def)
  from cas_ok.hyps(3) have eq: "processing (actx s) = count"
    and c': "c' = (actx s)\<lparr>processing := count + 1\<rparr>"
    by (simp_all add: tr_cas_def split: if_splits)
  have u: "unat (count + 1) = Suc (unat count)" using lt by (rule unat_incr_below)
  have le: "count + 1 \<le> limit (actx s)" using lt by (rule inc_le)
  show ?case using cas_ok eq c' u le holders_update[of i "rpcs s" RHolding]
    by (auto simp: adm_inv_def waiting_set_update_same dest: loaded_update)
next
  case (cas_retry i s count)
  then show ?case
    using holders_update[of i "rpcs s" RStart]
    by (auto simp: adm_inv_def waiting_set_update_same dest: loaded_update)
next
  case (park i s rdy n')
  show ?case
  proof (cases "n_permit (response (actx s))")
    case True
    with park show ?thesis
      using holders_update[of i "rpcs s" RStart]
      by (auto simp: adm_inv_def poll_notified_def notified_def set_response_def waiting_set_update_same dest: loaded_update)
  next
    case False
    then have "i \<notin> waiting_set (rpcs s)" using park by (simp add: waiting_set_def)
    with False park show ?thesis
      using holders_update[of i "rpcs s" RWaiting]
      by (auto simp: adm_inv_def poll_notified_def notified_def set_response_def waiting_set_update dest: loaded_update)
  qed
next
  case (send_ok i s)
  then show ?case
    using holders_update[of i "rpcs s" RDone]
    by (auto simp: adm_inv_def drop_permit_def waiting_set_update_same dest: loaded_update)
next
  case (send_err i s)
  then show ?case
    using holders_update[of i "rpcs s" RDone]
    by (auto simp: adm_inv_def drop_permit_def waiting_set_update_same dest: loaded_update)
next
  case (drop_unfused i s)
  then have "unat (processing (actx s)) = Suc (holders ((rpcs s)[i := RDone]) + length (handler_queue s) + leaked s)"
    using holders_update[of i "rpcs s" RDone] by (simp add: adm_inv_def)
  then show ?case using drop_unfused
    using word_decr_Suc[of "processing (actx s)"]
    by (auto simp: adm_inv_def drop_permit_def permit_drop_def waiting_set_update_same
        dest: loaded_update)
next
  case (respond s m q)
  then show ?case
    using word_decr_Suc[of "processing (actx s)"] by (auto simp: adm_inv_def)
next
  case (respond_notify s w n')
  show ?case
  proof (cases w)
    case None
    with respond_notify show ?thesis
      by (auto simp: adm_inv_def notify_one_def set_response_def split: list.splits)
  next
    case (Some j)
    with respond_notify obtain ts where ws: "n_waiters (response (actx s)) = j # ts" and n': "n_waiters n' = ts"
      by (auto simp: notify_one_def split: list.splits)
    with respond_notify have j: "j < length (rpcs s)" "rpcs s ! j = RWaiting"
      by (auto simp: adm_inv_def waiting_set_def)
    with ws respond_notify Some n' show ?thesis
      using holders_update[of j "rpcs s" RStart]
      by (auto simp: adm_inv_def set_response_def waiting_set_update dest: loaded_update)
  qed
qed

lemma adm_step_limit: "adm_step s t \<Longrightarrow> limit (actx t) = limit (actx s)"
  by (induction rule: adm_step.induct)
     (auto simp: tr_cas_def set_response_def drop_permit_def permit_drop_def split: if_splits)

lemma adm_reach_inv:
  "adm_step\<^sup>*\<^sup>* (adm_init n l) s \<Longrightarrow> adm_inv s \<and> limit (actx s) = l"
proof (induction rule: rtranclp_induct)
  case base
  show ?case using adm_inv_init[of n l] by (simp add: adm_init_def receiver_context_new_def)
next
  case (step s t)
  then show ?case using adm_step_inv adm_step_limit by metis
qed

lemmas adm_concrete_simps = adm_init_def receiver_context_new_def tr_load_def tr_cas_def
  notify_new_def poll_notified_def notified_def set_response_def drop_permit_def
  permit_drop_def notify_one_def Let_def

lemma adm_trace_hold:
  "adm_step\<^sup>*\<^sup>* (adm_init 1 1)
     ((adm_init 1 1)\<lparr>actx := (actx (adm_init 1 1))\<lparr>processing := 1\<rparr>, rpcs := [RHolding]\<rparr>)"
proof -
  let ?s0 = "adm_init 1 1"
  let ?s1 = "?s0\<lparr>rpcs := (rpcs ?s0)[0 := RLoaded 0]\<rparr>"
  have 1: "adm_step ?s0 ?s1"
    by (rule adm_step.load_ok) (simp_all add: adm_concrete_simps)
  have 2: "adm_step ?s1 (?s1\<lparr>actx := (actx ?s1)\<lparr>processing := 0 + 1\<rparr>, rpcs := (rpcs ?s1)[0 := RHolding]\<rparr>)"
    by (rule adm_step.cas_ok) (simp_all add: adm_concrete_simps)
  from 1 2 show ?thesis by (simp add: adm_concrete_simps)
qed

lemma adm_quiescent_stuck:
  assumes "\<forall>p\<in>set (rpcs s). p = RDone \<or> p = RWaiting"
    and "handler_queue s = []" and "\<not> in_response s"
  shows "\<not> adm_step s t"
proof
  assume "adm_step s t"
  then show False
    using assms by (cases rule: adm_step_elim) (auto dest!: nth_mem)
qed

subsection \<open>Properties of admission\<close>

text \<open>
  C1: under every interleaving of reserving, sending, dropping and answering tasks,
  the in-flight counter stays within the limit the receiver was built with, and it
  counts exactly the unfused permits, the messages awaiting their response and the
  permits leaked by failed sends.
\<close>

theorem admission_within_limit:
  assumes "adm_step\<^sup>*\<^sup>* (adm_init n l) s"
  shows "processing (actx s) \<le> l \<and>
         unat (processing (actx s)) = holders (rpcs s) + length (handler_queue s) + leaked s"
  using adm_reach_inv [OF assms] by (auto simp: adm_inv_def)

theorem admission_within_limit_witness:
  "adm_step\<^sup>*\<^sup>* (adm_init 1 1)
     ((adm_init 1 1)\<lparr>actx := (actx (adm_init 1 1))\<lparr>processing := 1\<rparr>, rpcs := [RHolding]\<rparr>) \<and>
   processing (actx ((adm_init 1 1)\<lparr>actx := (actx (adm_init 1 1))\<lparr>processing := 1\<rparr>, rpcs := [RHolding]\<rparr>)) \<le> 1"
  using admission_within_limit [OF adm_trace_hold] adm_trace_hold by simp

text \<open>
  C13: a send the strategy refuses still fuses its permit (\<open>permit.fuse = true\<close> after
  the enqueue returned an error), so the unit is never given back: with limit 1, one
  failed send leaves a receiver with no permit holder, no message in flight and no
  permit to hand out, and no step of the protocol can change that.
\<close>

theorem send_error_leaks_capacity:
  "\<exists>s. adm_step\<^sup>*\<^sup>* (adm_init 1 1) s \<and> holders (rpcs s) = 0 \<and> handler_queue s = [] \<and>
       leaked s = 1 \<and> tr_load (actx s) = None \<and> (\<forall>t. \<not> adm_step s t)"
proof -
  let ?s2 = "(adm_init 1 1)\<lparr>actx := (actx (adm_init 1 1))\<lparr>processing := 1\<rparr>, rpcs := [RHolding]\<rparr>"
  let ?s3 = "?s2\<lparr>actx := drop_permit \<lparr>fuse = True\<rparr> (actx ?s2), rpcs := (rpcs ?s2)[0 := RDone],
                  leaked := Suc (leaked ?s2)\<rparr>"
  have "adm_step ?s2 ?s3"
    by (rule adm_step.send_err) (simp_all add: adm_concrete_simps)
  with adm_trace_hold have r: "adm_step\<^sup>*\<^sup>* (adm_init 1 1) ?s3" by simp
  have stuck: "\<forall>t. \<not> adm_step ?s3 t"
    by (intro allI adm_quiescent_stuck) (simp_all add: adm_concrete_simps)
  show ?thesis
    by (rule exI [of _ ?s3]) (use r stuck in \<open>simp add: adm_concrete_simps holders_def\<close>)
qed

text \<open>
  C8: dropping an unfused permit (\<open>Permit::drop\<close>, \<open>permit_drop\<close>) decrements the
  counter but never signals the \<open>response\<close> notify that \<open>Receiver::reserve\<close> parks
  on: a task parked while the permit was held stays parked forever although the
  counter is below the limit, and no step is enabled.
\<close>

theorem dropped_permit_lost_wakeup:
  "\<exists>s. adm_step\<^sup>*\<^sup>* (adm_init 2 1) s \<and> rpcs s ! 1 = RWaiting \<and>
       processing (actx s) < limit (actx s) \<and> (\<forall>t. \<not> adm_step s t)"
proof -
  let ?s0 = "adm_init 2 1"
  let ?s1 = "?s0\<lparr>rpcs := (rpcs ?s0)[0 := RLoaded 0]\<rparr>"
  let ?s2 = "?s1\<lparr>actx := (actx ?s1)\<lparr>processing := 0 + 1\<rparr>, rpcs := (rpcs ?s1)[0 := RHolding]\<rparr>"
  let ?s3 = "?s2\<lparr>rpcs := (rpcs ?s2)[1 := RFull]\<rparr>"
  let ?n = "(response (actx ?s3))\<lparr>n_waiters := n_waiters (response (actx ?s3)) @ [1]\<rparr>"
  let ?s4 = "?s3\<lparr>actx := set_response ?n (actx ?s3),
                  rpcs := (rpcs ?s3)[1 := (if False then RStart else RWaiting)]\<rparr>"
  let ?s5 = "?s4\<lparr>actx := drop_permit \<lparr>fuse = False\<rparr> (actx ?s4), rpcs := (rpcs ?s4)[0 := RDone]\<rparr>"
  have 1: "adm_step ?s0 ?s1"
    by (rule adm_step.load_ok) (simp_all add: adm_concrete_simps)
  have 2: "adm_step ?s1 ?s2"
    by (rule adm_step.cas_ok) (simp_all add: adm_concrete_simps)
  have 3: "adm_step ?s2 ?s3"
    by (rule adm_step.load_full) (simp_all add: adm_concrete_simps)
  have 4: "adm_step ?s3 ?s4"
    by (rule adm_step.park) (simp_all add: adm_concrete_simps)
  have 5: "adm_step ?s4 ?s5"
    by (rule adm_step.drop_unfused) (simp_all add: adm_concrete_simps)
  have r: "adm_step\<^sup>*\<^sup>* ?s0 ?s5"
    using 1 2 3 4 5 by (meson rtranclp.rtrancl_into_rtrancl rtranclp.rtrancl_refl)
  have ps: "rpcs ?s5 = [RDone, RWaiting]"
    by (simp add: adm_concrete_simps numeral_2_eq_2)
  have stuck: "\<forall>t. \<not> adm_step ?s5 t"
    by (intro allI adm_quiescent_stuck) (simp_all only: ps, simp_all add: adm_concrete_simps)
  show ?thesis
    by (rule exI [of _ ?s5]) (use r stuck in \<open>simp add: adm_concrete_simps\<close>)
qed

text \<open>
  C14: \<open>Receiver::force_send\<close> enqueues without a permit, yet the event loop decrements
  \<open>processing\<close> on its response: from 0 the \<open>u64\<close> wraps to \<open>2^64 - 1\<close>, the counter
  exceeds the limit, and every later \<open>try_reserve\<close> fails.
\<close>

theorem force_send_wraps_processing:
  "\<exists>s. adm_step_forced\<^sup>*\<^sup>* (adm_init 1 1) s \<and>
       unat (processing (actx s)) = 2 ^ 64 - 1 \<and> \<not> processing (actx s) \<le> limit (actx s) \<and>
       tr_load (actx s) = None"
proof -
  let ?s0 = "adm_init 1 1"
  let ?s1 = "?s0\<lparr>handler_queue := handler_queue ?s0 @ [False]\<rparr>"
  let ?s2 = "?s1\<lparr>actx := (actx ?s1)\<lparr>processing := processing (actx ?s1) - 1\<rparr>,
                  handler_queue := [], in_response := True\<rparr>"
  have 1: "adm_step_forced ?s0 ?s1" by (rule adm_step_forced.force_send)
  have "adm_step ?s1 ?s2"
    by (rule adm_step.respond [where m = False and q = "[]"]) (simp_all add: adm_concrete_simps)
  then have 2: "adm_step_forced ?s1 ?s2" by (rule adm_step_forced.permitted)
  have r: "adm_step_forced\<^sup>*\<^sup>* ?s0 ?s2"
    using 1 2 by (meson rtranclp.rtrancl_into_rtrancl rtranclp.rtrancl_refl)
  have w: "unat (processing (actx ?s2)) = 2 ^ 64 - 1"
    using word_zero_minus_one_max [where 'a = 64] by (simp add: adm_concrete_simps)
  show ?thesis
    by (rule exI [of _ ?s2]) (use r w in \<open>simp add: adm_concrete_simps word_le_nat_alt\<close>)
qed

end
