(* ===== verification/Admission_Live.thy ===== *)
theory Admission_Live
  imports Admission
begin

text \<open>
  Progress of the admission protocol of theory \<open>Admission\<close>. The two
  counterexamples there (a failed send, an unfused permit dropped) are the only ways
  a task loses its wakeup. When every permit a task reserves is sent and accepted by
  the strategy (\<open>sends_accepted\<close>: no leaked permit, and no holder finishes without
  its message entering the handler queue), every reachable state can still reach the
  state where all tasks are done, the handler has answered everything and
  \<open>processing\<close> is back at 0: no task parks forever on the \<open>response\<close> notify.

  The proof carries two invariants beside \<open>adm_inv\<close> (\<open>live_inv\<close>): a stored
  \<open>notify_one\<close> permit means no task is parked, and while some task is parked or
  about to park, something will still call \<open>notify_one\<close> or consume the permit (a
  stored permit, a response being delivered, a queued message, or an active task).
  From a state that is not final, a few steps decrease the lexicographic measure
  (unfinished tasks, tasks about to park, pending work), so the final state is
  reached by well-founded induction.
\<close>

text \<open>The environment assumption: every send succeeds, and no permit is dropped unfused.\<close>

definition sends_accepted :: "adm_state \<Rightarrow> adm_state \<Rightarrow> bool" where
  "sends_accepted s t \<longleftrightarrow>
     leaked t = leaked s \<and>
     (\<forall>i<length (rpcs s). rpcs s ! i = RHolding \<and> rpcs t ! i = RDone \<longrightarrow> handler_queue t = handler_queue s @ [True])"

definition adm_step_ok :: "adm_state \<Rightarrow> adm_state \<Rightarrow> bool" where
  "adm_step_ok s t \<longleftrightarrow> adm_step s t \<and> sends_accepted s t"

text \<open>Task states that will still act, and task states that wait for a notification.\<close>

fun active :: "rpc \<Rightarrow> bool" where
  "active RStart = True"
| "active (RLoaded _) = True"
| "active RHolding = True"
| "active _ = False"

fun blocked :: "rpc \<Rightarrow> bool" where
  "blocked RFull = True"
| "blocked RWaiting = True"
| "blocked _ = False"

text \<open>The invariants of progress.\<close>

definition live_inv :: "adm_state \<Rightarrow> bool" where
  "live_inv s \<longleftrightarrow>
     leaked s = 0 \<and>
     (n_permit (response (actx s)) \<longrightarrow> n_waiters (response (actx s)) = []) \<and>
     ((\<exists>p\<in>set (rpcs s). blocked p) \<longrightarrow>
        n_permit (response (actx s)) \<or> in_response s \<or> handler_queue s \<noteq> [] \<or> (\<exists>p\<in>set (rpcs s). active p))"

text \<open>The measure: unfinished tasks, tasks about to park, and the work still to be done.\<close>

fun work :: "rpc \<Rightarrow> nat" where
  "work (RLoaded _) = 4"
| "work RHolding = 3"
| "work _ = 0"

definition undone :: "adm_state \<Rightarrow> nat" where
  "undone s = sum_list (map (\<lambda>p. if p = RDone then 0 else 1) (rpcs s))"

definition full_tasks :: "adm_state \<Rightarrow> nat" where
  "full_tasks s = sum_list (map (\<lambda>p. if p = RFull then 1 else 0) (rpcs s))"

definition pending_work :: "adm_state \<Rightarrow> nat" where
  "pending_work s = sum_list (map work (rpcs s)) + 2 * length (handler_queue s) + (if in_response s then 1 else 0)"

text \<open>All tasks done, and the handler has answered every message.\<close>

definition adm_final :: "adm_state \<Rightarrow> bool" where
  "adm_final s \<longleftrightarrow> (\<forall>p\<in>set (rpcs s). p = RDone) \<and> handler_queue s = [] \<and> \<not> in_response s"

abbreviation adm_measure :: "(adm_state \<times> adm_state) set" where
  "adm_measure \<equiv> measures [undone, full_tasks, pending_work]"

subsection \<open>Lemmas\<close>

lemma live_inv_init: "live_inv (adm_init n l)"
  by (simp add: live_inv_def adm_init_def receiver_context_new_def notify_new_def)

lemma holders_other:
  "0 < holders ps \<Longrightarrow> i < length ps \<Longrightarrow> ps ! i \<noteq> RHolding \<Longrightarrow> RHolding \<in> set (ps[i := v])"
  by (auto simp: holders_def filter_empty_conv in_set_conv_nth nth_list_update)

lemma live_inv_active:
  assumes "live_inv s" and "i < length (rpcs s)" and "active v"
    and "n_permit (response n) \<longrightarrow> n_waiters (response n) = []"
  shows "live_inv (s\<lparr>actx := n, rpcs := (rpcs s)[i := v]\<rparr>)"
proof -
  have "v \<in> set ((rpcs s)[i := v])" using assms(2) by (simp add: set_update_memI)
  then have "\<exists>p\<in>set ((rpcs s)[i := v]). active p" using assms(3) by blast
  with assms(1,4) show ?thesis unfolding live_inv_def by simp
qed

lemma blocked_at: "i < length ps \<Longrightarrow> blocked (ps ! i) \<Longrightarrow> \<exists>p\<in>set ps. blocked p"
  using nth_mem by blast

lemma active_other:
  assumes "i < length ps" "\<not> active (ps ! i)" "\<exists>p\<in>set ps. active p"
  shows "\<exists>p\<in>set (ps[i := v]). active p"
proof -
  from assms(3) obtain j where j: "j < length ps" "active (ps ! j)" by (metis in_set_conv_nth)
  with assms(2) have ji: "j \<noteq> i" by auto
  have "ps ! j \<in> set (ps[i := v])" using assms(1) j(1) ji by (rule in_set_update_other)
  with j(2) show ?thesis by blast
qed

lemma live_park_wait:
  assumes live: "live_inv s" and i: "i < length (rpcs s)" "rpcs s ! i = RFull"
    and np: "\<not> n_permit (response (actx s))"
  shows "live_inv (s\<lparr>actx := set_response ((response (actx s))\<lparr>n_waiters := n_waiters (response (actx s)) @ [i]\<rparr>) (actx s),
                     rpcs := (rpcs s)[i := RWaiting]\<rparr>)"
proof -
  have "\<exists>p\<in>set (rpcs s). blocked p" using blocked_at [OF i(1)] i(2) by simp
  with live np have cov: "in_response s \<or> handler_queue s \<noteq> [] \<or> (\<exists>p\<in>set (rpcs s). active p)"
    by (simp add: live_inv_def)
  have "\<not> active (rpcs s ! i)" using i(2) by simp
  with cov i(1) have "in_response s \<or> handler_queue s \<noteq> [] \<or> (\<exists>p\<in>set ((rpcs s)[i := RWaiting]). active p)"
    using active_other by blast
  with live np show ?thesis by (simp add: live_inv_def set_response_def)
qed

lemma live_load_full:
  assumes inv: "adm_inv s" and live: "live_inv s" and lim: "0 < limit (actx s)"
    and i: "i < length (rpcs s)" "rpcs s ! i = RStart" and tl: "tr_load (actx s) = None"
  shows "live_inv (s\<lparr>rpcs := (rpcs s)[i := RFull]\<rparr>)"
proof -
  from tl have "limit (actx s) \<le> processing (actx s)" by (simp add: tr_load_def Let_def split: if_splits)
  with lim have "processing (actx s) \<noteq> 0" by auto
  then have "0 < unat (processing (actx s))" by (simp add: unat_gt_0)
  with inv live have "0 < holders (rpcs s) \<or> handler_queue s \<noteq> []" by (auto simp: adm_inv_def live_inv_def)
  then have "handler_queue s \<noteq> [] \<or> RHolding \<in> set ((rpcs s)[i := RFull])"
    using i holders_other by auto
  then have "handler_queue s \<noteq> [] \<or> (\<exists>p\<in>set ((rpcs s)[i := RFull]). active p)"
    by (metis active.simps(3))
  with live show ?thesis by (simp add: live_inv_def)
qed

lemma live_notify_some:
  assumes inv: "adm_inv s" and live: "live_inv s"
    and ws: "n_waiters (response (actx s)) = j # ts"
  shows "live_inv (s\<lparr>actx := set_response ((response (actx s))\<lparr>n_waiters := ts\<rparr>) (actx s),
                     rpcs := (rpcs s)[j := RStart], in_response := False\<rparr>)"
proof -
  from ws inv have j: "j < length (rpcs s)" by (auto simp: adm_inv_def waiting_set_def)
  from ws live have np: "\<not> n_permit (response (actx s))" by (auto simp: live_inv_def)
  have "RStart \<in> set ((rpcs s)[j := RStart])" using j by (simp add: set_update_memI)
  then have "\<exists>p\<in>set ((rpcs s)[j := RStart]). active p" by (metis active.simps(1))
  with live np show ?thesis by (simp add: live_inv_def set_response_def)
qed

lemma adm_step_ok_live_inv:
  assumes ok: "adm_step_ok s t" and inv: "adm_inv s" and live: "live_inv s" and lim: "0 < limit (actx s)"
  shows "live_inv t"
proof -
  from ok have step: "adm_step s t" and acc: "sends_accepted s t" by (simp_all add: adm_step_ok_def)
  have perm: "n_permit (response (actx s)) \<longrightarrow> n_waiters (response (actx s)) = []"
    using live by (simp add: live_inv_def)
  from step show ?thesis
  proof (cases rule: adm_step.cases)
    case (load_ok i count)
    then show ?thesis using live_inv_active [OF live, of i "RLoaded count" "actx s"] perm by simp
  next
    case (load_full i)
    then show ?thesis using live_load_full [OF inv live lim] by simp
  next
    case (cas_ok i count c')
    then have "c' = (actx s)\<lparr>processing := count + 1\<rparr>" by (simp add: tr_cas_def split: if_splits)
    with cas_ok show ?thesis using live_inv_active [OF live, of i RHolding c'] perm by simp
  next
    case (cas_retry i count)
    then show ?thesis using live_inv_active [OF live, of i RStart "actx s"] perm by simp
  next
    case (park i rdy n')
    show ?thesis
    proof (cases "n_permit (response (actx s))")
      case True
      with park have "rdy" "n' = (response (actx s))\<lparr>n_permit := False\<rparr>"
        by (simp_all add: poll_notified_def)
      with park show ?thesis
        using live_inv_active [OF live, of i RStart "set_response n' (actx s)"] by (simp add: set_response_def)
    next
      case False
      with park have "\<not> rdy" "n' = (response (actx s))\<lparr>n_waiters := n_waiters (response (actx s)) @ [i]\<rparr>"
        by (simp_all add: poll_notified_def notified_def)
      with park False show ?thesis using live_park_wait [OF live] by simp
    qed
  next
    case (send_ok i)
    with live show ?thesis by (simp add: live_inv_def drop_permit_def)
  next
    case (send_err i)
    with acc show ?thesis by (simp add: sends_accepted_def)
  next
    case (drop_unfused i)
    have "rpcs t ! i = RDone" using drop_unfused by simp
    with acc drop_unfused(2,3) have "handler_queue t = handler_queue s @ [True]"
      unfolding sends_accepted_def by blast
    with drop_unfused(1) show ?thesis by simp
  next
    case (respond m q)
    with live show ?thesis by (simp add: live_inv_def)
  next
    case (respond_notify w n')
    show ?thesis
    proof (cases "n_waiters (response (actx s))")
      case Nil
      with respond_notify have "n' = (response (actx s))\<lparr>n_permit := True\<rparr>"
        by (simp add: notify_one_def)
      with respond_notify live Nil show ?thesis
        by (simp add: live_inv_def set_response_def)
    next
      case (Cons j ts)
      with respond_notify have w: "w = Some j" and n': "n' = (response (actx s))\<lparr>n_waiters := ts\<rparr>"
        by (auto simp: notify_one_def)
      with respond_notify show ?thesis using live_notify_some [OF inv live Cons] by simp
    qed
  qed
qed

lemma sends_accepted_same: "rpcs t = rpcs s \<Longrightarrow> leaked t = leaked s \<Longrightarrow> sends_accepted s t"
  by (auto simp: sends_accepted_def)

lemma sends_accepted_update:
  "rpcs t = (rpcs s)[i := v] \<Longrightarrow> v \<noteq> RDone \<Longrightarrow> leaked t = leaked s \<Longrightarrow> sends_accepted s t"
  by (cases "i < length (rpcs s)") (auto simp: sends_accepted_def nth_list_update split: if_splits)

lemma sends_accepted_sent:
  "rpcs t = (rpcs s)[i := RDone] \<Longrightarrow> handler_queue t = handler_queue s @ [True] \<Longrightarrow> leaked t = leaked s \<Longrightarrow>
   sends_accepted s t"
  by (simp add: sends_accepted_def)

lemma wake_RWaiting:
  assumes "adm_inv s" "notify_one (response (actx s)) = (w, n')"
  shows "\<exists>ps. wake w (rpcs s) = ps \<and> (ps = rpcs s \<or> (\<exists>j<length (rpcs s). rpcs s ! j = RWaiting \<and> ps = (rpcs s)[j := RStart]))"
proof (cases w)
  case (Some j)
  with assms have "j \<in> set (n_waiters (response (actx s)))" by (auto simp: notify_one_def split: list.splits)
  with assms(1) have "j < length (rpcs s) \<and> rpcs s ! j = RWaiting" by (auto simp: adm_inv_def waiting_set_def)
  with Some show ?thesis by auto
qed simp

lemma prog_notify:
  assumes inv: "adm_inv s" and ir: "in_response s"
  shows "\<exists>t. adm_step_ok s t \<and> (t, s) \<in> adm_measure"
proof -
  obtain w n' where wn: "notify_one (response (actx s)) = (w, n')" by (metis surj_pair)
  let ?t = "s\<lparr>actx := set_response n' (actx s), rpcs := wake w (rpcs s), in_response := False\<rparr>"
  have step: "adm_step s ?t" using ir wn by (rule adm_step.respond_notify)
  from wake_RWaiting [OF inv wn] consider (same) "wake w (rpcs s) = rpcs s"
    | (upd) j where "j < length (rpcs s)" "rpcs s ! j = RWaiting" "wake w (rpcs s) = (rpcs s)[j := RStart]"
    by blast
  then show ?thesis
  proof cases
    case same
    then have "adm_step_ok s ?t" using step by (simp add: adm_step_ok_def sends_accepted_same)
    with same ir show ?thesis
      by (intro exI [of _ ?t]) (simp add: undone_def full_tasks_def pending_work_def)
  next
    case upd
    then have "adm_step_ok s ?t" using step by (simp add: adm_step_ok_def sends_accepted_update)
    moreover have "undone ?t = undone s" "full_tasks ?t = full_tasks s"
      "sum_list (map work (rpcs ?t)) = sum_list (map work (rpcs s))"
      using upd sum_list_update [of j "rpcs s" "\<lambda>p. if p = RDone then 0 else 1" RStart]
        sum_list_update [of j "rpcs s" "\<lambda>p. if p = RFull then 1 else 0" RStart]
        sum_list_update [of j "rpcs s" work RStart]
      by (simp_all add: undone_def full_tasks_def)
    ultimately show ?thesis using ir
      by (intro exI [of _ ?t]) (simp add: pending_work_def)
  qed
qed

lemma prog_respond:
  assumes ir: "\<not> in_response s" and q: "handler_queue s = m # q"
  shows "\<exists>t. adm_step_ok s t \<and> (t, s) \<in> adm_measure"
proof -
  let ?t = "s\<lparr>actx := (actx s)\<lparr>processing := processing (actx s) - 1\<rparr>, handler_queue := q, in_response := True\<rparr>"
  have "adm_step s ?t" using q ir by (rule adm_step.respond)
  then have "adm_step_ok s ?t" by (simp add: adm_step_ok_def sends_accepted_same)
  with ir q show ?thesis
    by (intro exI [of _ ?t]) (simp add: undone_def full_tasks_def pending_work_def)
qed

lemma prog_send:
  assumes i: "i < length (rpcs s)" "rpcs s ! i = RHolding"
  shows "\<exists>t. adm_step_ok s t \<and> (t, s) \<in> adm_measure"
proof -
  let ?t = "s\<lparr>actx := drop_permit \<lparr>fuse = True\<rparr> (actx s), rpcs := (rpcs s)[i := RDone],
                handler_queue := handler_queue s @ [True]\<rparr>"
  have "adm_step s ?t" using i by (rule adm_step.send_ok)
  then have "adm_step_ok s ?t" by (simp add: adm_step_ok_def sends_accepted_sent)
  moreover have "undone ?t < undone s"
    using i sum_list_update [of i "rpcs s" "\<lambda>p. if p = RDone then 0 else 1" RDone]
    by (simp add: undone_def)
  ultimately show ?thesis by (intro exI [of _ ?t]) simp
qed

lemma prog_cas:
  assumes i: "i < length (rpcs s)" "rpcs s ! i = RLoaded c"
  shows "\<exists>t. adm_step_ok s t \<and> (t, s) \<in> adm_measure"
proof (cases "tr_cas c (actx s)")
  case None
  let ?t = "s\<lparr>rpcs := (rpcs s)[i := RStart]\<rparr>"
  have "adm_step s ?t" using i None by (rule adm_step.cas_retry)
  then have "adm_step_ok s ?t" by (simp add: adm_step_ok_def sends_accepted_update)
  moreover have "undone ?t = undone s" "full_tasks ?t = full_tasks s"
    "sum_list (map work (rpcs ?t)) + 4 = sum_list (map work (rpcs s))"
    using i sum_list_update [of i "rpcs s" "\<lambda>p. if p = RDone then 0 else 1" RStart]
      sum_list_update [of i "rpcs s" "\<lambda>p. if p = RFull then 1 else 0" RStart]
      sum_list_update [of i "rpcs s" work RStart]
    by (simp_all add: undone_def full_tasks_def)
  ultimately show ?thesis by (intro exI [of _ ?t]) (simp add: pending_work_def)
next
  case (Some c')
  let ?t = "s\<lparr>actx := c', rpcs := (rpcs s)[i := RHolding]\<rparr>"
  have "adm_step s ?t" using i Some by (rule adm_step.cas_ok)
  then have "adm_step_ok s ?t" by (simp add: adm_step_ok_def sends_accepted_update)
  moreover have "undone ?t = undone s" "full_tasks ?t = full_tasks s"
    "sum_list (map work (rpcs ?t)) + 1 = sum_list (map work (rpcs s))"
    using i sum_list_update [of i "rpcs s" "\<lambda>p. if p = RDone then 0 else 1" RHolding]
      sum_list_update [of i "rpcs s" "\<lambda>p. if p = RFull then 1 else 0" RHolding]
      sum_list_update [of i "rpcs s" work RHolding]
    by (simp_all add: undone_def full_tasks_def)
  ultimately show ?thesis by (intro exI [of _ ?t]) (simp add: pending_work_def)
qed

lemma prog_park:
  assumes i: "i < length (rpcs s)" "rpcs s ! i = RFull"
  shows "\<exists>t. adm_step_ok s t \<and> (t, s) \<in> adm_measure"
proof -
  obtain rdy n' where pn: "poll_notified i (notified (response (actx s))) (response (actx s)) = (rdy, n')"
    by (metis surj_pair)
  let ?v = "if rdy then RStart else RWaiting"
  let ?t = "s\<lparr>actx := set_response n' (actx s), rpcs := (rpcs s)[i := ?v]\<rparr>"
  have "adm_step s ?t" using i pn by (rule adm_step.park)
  then have "adm_step_ok s ?t" by (simp add: adm_step_ok_def sends_accepted_update)
  moreover have "undone ?t = undone s" "full_tasks ?t + 1 = full_tasks s"
    using i sum_list_update [of i "rpcs s" "\<lambda>p. if p = RDone then 0 else 1" ?v]
      sum_list_update [of i "rpcs s" "\<lambda>p. if p = RFull then 1 else 0" ?v]
    by (cases rdy; simp add: undone_def full_tasks_def)+
  ultimately show ?thesis by (intro exI [of _ ?t]) simp
qed

lemma pending_work_zero:
  assumes "pending_work s = 0"
  shows "handler_queue s = [] \<and> \<not> in_response s \<and> RHolding \<notin> set (rpcs s) \<and> (\<forall>c. RLoaded c \<notin> set (rpcs s))"
proof -
  from assms have "\<forall>p\<in>set (rpcs s). work p = 0" "handler_queue s = []" "\<not> in_response s"
    by (simp_all add: pending_work_def split: if_splits)
  then show ?thesis by (metis work.simps(1,2) zero_neq_numeral)
qed

lemma prog_start:
  assumes inv: "adm_inv s" and live: "live_inv s" and lim: "0 < limit (actx s)"
    and pw: "pending_work s = 0" and i: "i < length (rpcs s)" "rpcs s ! i = RStart"
  shows "\<exists>t. adm_step_ok\<^sup>+\<^sup>+ s t \<and> (t, s) \<in> adm_measure"
proof -
  from pending_work_zero [OF pw] have q: "handler_queue s = []" and nh: "RHolding \<notin> set (rpcs s)" by simp_all
  from nh have "holders (rpcs s) = 0" by (auto simp: holders_def filter_empty_conv)
  with inv live q have "unat (processing (actx s)) = 0" by (simp add: adm_inv_def live_inv_def)
  then have p0: "processing (actx s) = 0" by (simp add: unat_eq_zero)
  let ?s1 = "s\<lparr>rpcs := (rpcs s)[i := RLoaded 0]\<rparr>"
  let ?s2 = "?s1\<lparr>actx := (actx ?s1)\<lparr>processing := 0 + 1\<rparr>, rpcs := (rpcs ?s1)[i := RHolding]\<rparr>"
  let ?s3 = "?s2\<lparr>actx := drop_permit \<lparr>fuse = True\<rparr> (actx ?s2), rpcs := (rpcs ?s2)[i := RDone],
                  handler_queue := handler_queue ?s2 @ [True]\<rparr>"
  have "tr_load (actx s) = Some 0" using p0 lim by (simp add: tr_load_def)
  then have "adm_step s ?s1" using i by (intro adm_step.load_ok) simp_all
  then have 1: "adm_step_ok s ?s1" by (simp add: adm_step_ok_def sends_accepted_update)
  have "tr_cas 0 (actx ?s1) = Some ((actx ?s1)\<lparr>processing := 0 + 1\<rparr>)" using p0 by (simp add: tr_cas_def)
  then have "adm_step ?s1 ?s2" using i by (intro adm_step.cas_ok) simp_all
  moreover have "sends_accepted ?s1 ?s2" by (rule sends_accepted_update [of _ _ i RHolding]) simp_all
  ultimately have 2: "adm_step_ok ?s1 ?s2" by (simp add: adm_step_ok_def)
  have "adm_step ?s2 ?s3" using i by (intro adm_step.send_ok) simp_all
  moreover have "sends_accepted ?s2 ?s3" by (rule sends_accepted_sent [of _ _ i]) simp_all
  ultimately have 3: "adm_step_ok ?s2 ?s3" by (simp add: adm_step_ok_def)
  from 1 2 3 have path: "adm_step_ok\<^sup>+\<^sup>+ s ?s3" by (meson tranclp.r_into_trancl tranclp.trancl_into_trancl)
  have "undone ?s3 < undone s"
    using i sum_list_update [of i "rpcs s" "\<lambda>p. if p = RDone then 0 else 1" RDone]
    by (simp add: undone_def)
  with path show ?thesis by (intro exI [of _ ?s3]) simp
qed

lemma no_stuck:
  assumes inv: "adm_inv s" and live: "live_inv s" and pw: "pending_work s = 0"
    and ns: "\<forall>p\<in>set (rpcs s). p \<noteq> RStart \<and> p \<noteq> RFull"
  shows "adm_final s"
proof (rule ccontr)
  assume nf: "\<not> adm_final s"
  from pending_work_zero [OF pw] have q: "handler_queue s = []" "\<not> in_response s"
    and nh: "RHolding \<notin> set (rpcs s)" and nl: "\<forall>c. RLoaded c \<notin> set (rpcs s)" by simp_all
  from nf q obtain j where j: "j < length (rpcs s)" "rpcs s ! j \<noteq> RDone"
    by (auto simp: adm_final_def in_set_conv_nth)
  have jm: "rpcs s ! j \<in> set (rpcs s)" using j(1) by (rule nth_mem)
  have w: "rpcs s ! j = RWaiting"
    using j(2) jm ns nh nl by (cases "rpcs s ! j") auto
  have na: "\<not> (\<exists>p\<in>set (rpcs s). active p)"
  proof
    assume "\<exists>p\<in>set (rpcs s). active p"
    then obtain p where "p \<in> set (rpcs s)" "active p" by blast
    with ns nh nl show False by (cases p) auto
  qed
  have "\<exists>p\<in>set (rpcs s). blocked p" using jm w by force
  with live q na have "n_permit (response (actx s))" by (simp add: live_inv_def)
  with live have "n_waiters (response (actx s)) = []" by (simp add: live_inv_def)
  with inv have "waiting_set (rpcs s) = {}" by (simp add: adm_inv_def)
  with j(1) w show False by (simp add: waiting_set_def)
qed

lemma adm_progress:
  assumes inv: "adm_inv s" and live: "live_inv s" and lim: "0 < limit (actx s)" and nf: "\<not> adm_final s"
  shows "\<exists>t. adm_step_ok\<^sup>+\<^sup>+ s t \<and> (t, s) \<in> adm_measure"
proof -
  have one: "\<exists>t. adm_step_ok\<^sup>+\<^sup>+ s t \<and> (t, s) \<in> adm_measure" if "\<exists>t. adm_step_ok s t \<and> (t, s) \<in> adm_measure"
    using that by blast
  show ?thesis
  proof (cases "in_response s")
    case True
    with inv show ?thesis by (intro one prog_notify)
  next
    case nir: False
    show ?thesis
    proof (cases "handler_queue s")
      case (Cons m q)
      with nir show ?thesis by (intro one prog_respond)
    next
      case nq: Nil
      show ?thesis
      proof (cases "\<exists>i<length (rpcs s). rpcs s ! i = RHolding \<or> (\<exists>c. rpcs s ! i = RLoaded c)")
        case True
        then obtain i where i: "i < length (rpcs s)" "rpcs s ! i = RHolding \<or> (\<exists>c. rpcs s ! i = RLoaded c)"
          by blast
        then show ?thesis using prog_send [of i s] prog_cas [of i s] one by blast
      next
        case nw: False
        have "\<forall>p\<in>set (rpcs s). work p = 0"
        proof
          fix p assume "p \<in> set (rpcs s)"
          then obtain i where "i < length (rpcs s)" "rpcs s ! i = p" by (metis in_set_conv_nth)
          with nw show "work p = 0" by (cases p) auto
        qed
        with nir nq have pw: "pending_work s = 0" by (simp add: pending_work_def)
        show ?thesis
        proof (cases "\<exists>i<length (rpcs s). rpcs s ! i = RStart")
          case True
          then obtain i where "i < length (rpcs s)" "rpcs s ! i = RStart" by blast
          then show ?thesis using prog_start [OF inv live lim pw] by blast
        next
          case ns: False
          show ?thesis
          proof (cases "\<exists>i<length (rpcs s). rpcs s ! i = RFull")
            case True
            then obtain i where "i < length (rpcs s)" "rpcs s ! i = RFull" by blast
            then show ?thesis using prog_park one by blast
          next
            case False
            with ns have "\<forall>p\<in>set (rpcs s). p \<noteq> RStart \<and> p \<noteq> RFull" by (metis in_set_conv_nth)
            with no_stuck [OF inv live pw] nf show ?thesis by blast
          qed
        qed
      qed
    qed
  qed
qed

lemma ok_reach_invs:
  assumes "adm_step_ok\<^sup>*\<^sup>* s t" and "adm_inv s" "live_inv s" "0 < limit (actx s)"
  shows "adm_inv t \<and> live_inv t \<and> limit (actx t) = limit (actx s)"
  using assms
proof (induction rule: rtranclp_induct)
  case (step u v)
  then have "adm_step u v" by (simp add: adm_step_ok_def)
  with step show ?case using adm_step_inv adm_step_ok_live_inv adm_step_limit by metis
qed simp

lemma adm_reaches_final:
  "adm_inv s \<longrightarrow> live_inv s \<longrightarrow> 0 < limit (actx s) \<longrightarrow> (\<exists>t. adm_step_ok\<^sup>*\<^sup>* s t \<and> adm_final t)"
proof (rule wf_induct_rule [OF wf_measures [of "[undone, full_tasks, pending_work]"]])
  fix s
  assume IH: "\<And>y. (y, s) \<in> adm_measure \<Longrightarrow>
    adm_inv y \<longrightarrow> live_inv y \<longrightarrow> 0 < limit (actx y) \<longrightarrow> (\<exists>t. adm_step_ok\<^sup>*\<^sup>* y t \<and> adm_final t)"
  show "adm_inv s \<longrightarrow> live_inv s \<longrightarrow> 0 < limit (actx s) \<longrightarrow> (\<exists>t. adm_step_ok\<^sup>*\<^sup>* s t \<and> adm_final t)"
  proof (intro impI)
    assume prems: "adm_inv s" "live_inv s" "0 < limit (actx s)"
    show "\<exists>t. adm_step_ok\<^sup>*\<^sup>* s t \<and> adm_final t"
    proof (cases "adm_final s")
      case False
      from adm_progress [OF prems False] obtain t
        where t: "adm_step_ok\<^sup>+\<^sup>+ s t" "(t, s) \<in> adm_measure" by blast
      from t(1) have st: "adm_step_ok\<^sup>*\<^sup>* s t" by (rule tranclp_into_rtranclp)
      from ok_reach_invs [OF st prems] prems have "adm_inv t" "live_inv t" "0 < limit (actx t)" by simp_all
      with IH [OF t(2)] obtain u where "adm_step_ok\<^sup>*\<^sup>* t u" "adm_final u" by blast
      with st show ?thesis by (meson rtranclp_trans)
    qed blast
  qed
qed

lemma adm_final_processing:
  assumes "adm_inv s" "live_inv s" "adm_final s"
  shows "processing (actx s) = 0"
proof -
  from assms(3) have "holders (rpcs s) = 0" by (auto simp: adm_final_def holders_def filter_empty_conv)
  with assms have "unat (processing (actx s)) = 0" by (simp add: adm_inv_def live_inv_def adm_final_def)
  then show ?thesis by (simp add: unat_eq_zero)
qed

subsection \<open>Progress\<close>

text \<open>
  C5: liveness of admission: when every reserved permit is sent and accepted, from
  every state reachable from a receiver with a positive limit and any number of
  reserving tasks, the protocol can still reach the state where every task is done,
  the handler queue is drained and \<open>processing\<close> is 0; no task is parked forever.
\<close>

theorem admission_completes:
  assumes "adm_step_ok\<^sup>*\<^sup>* (adm_init n l) s" and "0 < l"
  shows "\<exists>t. adm_step_ok\<^sup>*\<^sup>* s t \<and> (\<forall>p\<in>set (rpcs t). p = RDone) \<and> handler_queue t = [] \<and>
             processing (actx t) = 0"
proof -
  have l: "limit (actx (adm_init n l)) = l" by (simp add: adm_init_def receiver_context_new_def)
  from ok_reach_invs [OF assms(1) adm_inv_init live_inv_init] assms(2) l
  have "adm_inv s" "live_inv s" "0 < limit (actx s)" by simp_all
  with adm_reaches_final obtain t where st: "adm_step_ok\<^sup>*\<^sup>* s t" and f: "adm_final t" by blast
  from ok_reach_invs [OF st \<open>adm_inv s\<close> \<open>live_inv s\<close> \<open>0 < limit (actx s)\<close>]
  have "adm_inv t" "live_inv t" by simp_all
  then have "processing (actx t) = 0" using f by (rule adm_final_processing)
  with st f show ?thesis by (auto simp: adm_final_def)
qed

theorem admission_completes_witness:
  "\<exists>t. adm_step_ok\<^sup>*\<^sup>* (adm_init 2 1) t \<and> (\<forall>p\<in>set (rpcs t). p = RDone) \<and> handler_queue t = [] \<and>
       processing (actx t) = 0"
  using admission_completes [of 2 1 "adm_init 2 1"] by simp

end
