(* ===== verification/Slab.thy ===== *)
theory Slab
  imports Bus_Prelude
begin

text \<open>
  The waiters of a receiver live in a \<open>sharded_slab::Slab\<close> (\<open>Slab<T, SlabCfg>\<close>,
  lines 27--32 of \<open>src/src/receiver.rs\<close>). The slab is a library the crate calls; it
  is modelled from its documented behaviour and not mapped to a source line:
  \<^item> \<open>insert\<close> stores a value in the first free slot (or a new one while the slab
    is below its capacity) and returns a key that packs the slot's generation with its
    index, or \<open>None\<close> when the slab is full;
  \<^item> \<open>take(key)\<close> removes and returns the value if the key's generation is the slot's
    current one, and bumps the generation, so a stale key finds nothing.
  Generations count modulo \<open>max_gens\<close>: the key of a slot is
  \<open>generation * max_slots + index\<close>, and the crate's configuration (one reserved bit)
  keeps every key below \<open>2^63\<close>, which the well-formedness predicate states.
\<close>

record 'a slab =
  slots :: "(nat \<times> 'a option) list"
  max_slots :: nat
  max_gens :: nat

definition slab_new :: "nat \<Rightarrow> nat \<Rightarrow> 'a slab" where
  "slab_new m g = \<lparr>slots = [], max_slots = m, max_gens = g\<rparr>"

fun first_free :: "(nat \<times> 'a option) list \<Rightarrow> nat option" where
  "first_free [] = None"
| "first_free ((g, None) # xs) = Some 0"
| "first_free ((g, Some v) # xs) = map_option Suc (first_free xs)"

definition slab_key :: "'a slab \<Rightarrow> nat \<Rightarrow> nat \<Rightarrow> nat" where
  "slab_key s g i = g * max_slots s + i"

definition slab_insert :: "'a \<Rightarrow> 'a slab \<Rightarrow> (nat \<times> 'a slab) option" where
  "slab_insert v s =
     (case first_free (slots s) of
        Some i \<Rightarrow> (let g = fst (slots s ! i)
                   in Some (slab_key s g i, s\<lparr>slots := (slots s)[i := (g, Some v)]\<rparr>))
      | None \<Rightarrow>
          (if length (slots s) < max_slots s
           then Some (slab_key s 0 (length (slots s)), s\<lparr>slots := slots s @ [(0, Some v)]\<rparr>)
           else None))"

definition slab_take :: "nat \<Rightarrow> 'a slab \<Rightarrow> ('a \<times> 'a slab) option" where
  "slab_take k s =
     (let i = k mod max_slots s; g = k div max_slots s
      in if i < length (slots s) \<and> fst (slots s ! i) = g
         then (case snd (slots s ! i) of
                 None \<Rightarrow> None
               | Some v \<Rightarrow> Some (v, s\<lparr>slots := (slots s)[i := (Suc g mod max_gens s, None)]\<rparr>))
         else None)"

definition slab_get :: "nat \<Rightarrow> 'a slab \<Rightarrow> 'a option" where
  "slab_get k s = map_option fst (slab_take k s)"

subsection \<open>Slab lemmas\<close>

lemma first_free_Some: "first_free xs = Some i \<Longrightarrow> i < length xs \<and> snd (xs ! i) = None"
  by (induction xs arbitrary: i rule: first_free.induct) auto

lemma first_free_None: "first_free xs = None \<Longrightarrow> \<forall>x\<in>set xs. snd x \<noteq> None"
  by (induction xs rule: first_free.induct) auto

lemma slab_key_decode:
  "i < max_slots s \<Longrightarrow> slab_key s g i mod max_slots s = i \<and> slab_key s g i div max_slots s = g"
  by (simp add: slab_key_def)

text \<open>A slab never grows past its capacity.\<close>

definition slab_wf :: "'a slab \<Rightarrow> bool" where
  "slab_wf s \<longleftrightarrow> length (slots s) \<le> max_slots s \<and> 0 < max_gens s \<and>
     (\<forall>x\<in>set (slots s). fst x < max_gens s) \<and> max_gens s * max_slots s \<le> 2 ^ 63"

lemma slab_insert_wf:
  assumes ins: "slab_insert v s = Some (k, s')" and wf: "slab_wf s"
  shows "slab_wf s'"
proof (cases "first_free (slots s)")
  case (Some i)
  then have i: "i < length (slots s)" using first_free_Some by blast
  have "\<forall>x\<in>set ((slots s)[i := (fst (slots s ! i), Some v)]). fst x < max_gens s"
    using wf i nth_mem by (fastforce simp: slab_wf_def dest: set_update_memD)
  moreover from Some ins have "s' = s\<lparr>slots := (slots s)[i := (fst (slots s ! i), Some v)]\<rparr>"
    by (simp add: slab_insert_def Let_def)
  ultimately show ?thesis using wf by (simp add: slab_wf_def)
next
  case None
  with ins wf show ?thesis by (fastforce simp: slab_insert_def slab_wf_def split: if_splits)
qed

lemma slab_take_wf:
  assumes tk: "slab_take k s = Some (v, s')" and wf: "slab_wf s"
  shows "slab_wf s'"
proof -
  let ?i = "k mod max_slots s" and ?g = "k div max_slots s"
  from tk have s': "s' = s\<lparr>slots := (slots s)[?i := (Suc ?g mod max_gens s, None)]\<rparr>"
    by (auto simp: slab_take_def Let_def split: if_splits option.splits)
  have "\<forall>x\<in>set ((slots s)[?i := (Suc ?g mod max_gens s, None)]). fst x < max_gens s"
    using wf by (fastforce simp: slab_wf_def dest: set_update_memD)
  with s' wf show ?thesis by (simp add: slab_wf_def)
qed

text \<open>Every key handed out fits the reserved-bit key space, below \<open>2^63\<close>.\<close>

lemma key_below_bound:
  fixes g i m n :: nat
  assumes "g < n" and "i < m"
  shows "g * m + i < n * m"
proof -
  have "g * m + i < Suc g * m" using assms(2) by simp
  also have "Suc g * m \<le> n * m" using assms(1) by (intro mult_le_mono1) simp
  finally show ?thesis .
qed

lemma slab_insert_key_bound:
  assumes ins: "slab_insert v s = Some (k, s')" and wf: "slab_wf s"
  shows "k < 2 ^ 63"
proof -
  have "k < max_gens s * max_slots s"
  proof (cases "first_free (slots s)")
    case (Some i)
    then have i: "i < length (slots s)" using first_free_Some by blast
    then have "fst (slots s ! i) < max_gens s" using wf nth_mem by (auto simp: slab_wf_def)
    moreover have "i < max_slots s" using i wf by (simp add: slab_wf_def)
    ultimately have "slab_key s (fst (slots s ! i)) i < max_gens s * max_slots s"
      unfolding slab_key_def by (rule key_below_bound)
    with Some ins show ?thesis by (simp add: slab_insert_def Let_def)
  next
    case None
    with ins have lt: "length (slots s) < max_slots s" and k: "k = slab_key s 0 (length (slots s))"
      by (auto simp: slab_insert_def split: if_splits)
    have "0 < max_gens s" using wf by (simp add: slab_wf_def)
    with lt k show ?thesis
      using key_below_bound [of 0 "max_gens s" "length (slots s)" "max_slots s"]
      by (simp add: slab_key_def)
  qed
  with wf show ?thesis by (simp add: slab_wf_def)
qed

text \<open>Insert then take with the returned key gives the value back and frees the slot.\<close>

lemma slab_take_insert:
  assumes ins: "slab_insert v s = Some (k, s')" and wf: "slab_wf s"
  shows "\<exists>s''. slab_take k s' = Some (v, s'')"
proof (cases "first_free (slots s)")
  case (Some i)
  with first_free_Some have i: "i < length (slots s)" by blast
  with wf have "i < max_slots s" by (simp add: slab_wf_def)
  with Some i ins show ?thesis
    by (auto simp: slab_insert_def slab_take_def slab_key_decode Let_def split: if_splits)
next
  case None
  with ins have lt: "length (slots s) < max_slots s"
    and k: "k = slab_key s 0 (length (slots s))"
    and s': "s' = s\<lparr>slots := slots s @ [(0, Some v)]\<rparr>"
    by (auto simp: slab_insert_def split: if_splits)
  from lt have "k mod max_slots s = length (slots s) \<and> k div max_slots s = 0"
    using k slab_key_decode [of "length (slots s)" s 0] by simp
  with s' show ?thesis by (simp add: slab_take_def Let_def nth_append)
qed

text \<open>A key is taken at most once: after a take, the same key finds nothing.\<close>

lemma slab_take_twice: "slab_take k s = Some (v, s') \<Longrightarrow> slab_take k s' = None"
  by (auto simp: slab_take_def Let_def split: if_splits option.splits)

end
