(* ===== verification/Waiters.thy ===== *)
theory Waiters
  imports Slab Errors Context
begin

text \<open>
  Pending response listeners (\<open>src/src/receiver.rs\<close>). A \<open>Waiter<R, E>\<close> (lines
  640--645) is one of four \<open>oneshot::Sender\<close>s, chosen by which of the response type
  \<open>R\<close> and the error type \<open>E\<close> the requester names statically; here a sender is the
  number of its channel. A channel is open until its one value is sent, or until one
  end is dropped: a dropped receiver (the requester dropped its response future) makes
  \<open>send\<close> return \<open>Err(value)\<close>, a dropped sender makes the receiver's \<open>await\<close>
  return \<open>RecvError\<close>.

  The wrapper state holds the receiver context (\<open>context\<close>, a keyword of Isabelle, is
  \<open>rw_context\<close>), the slab of waiters and the channels
  shared with the requesters. \<open>R\<close> and \<open>E\<close> are passed as runtime types where the
  code boxes a value of them.
\<close>

datatype waiter =
    WithErrorType nat
  | WithoutErrorType nat
  | Boxed nat
  | BoxedWithError nat

primrec waiter_chan :: "waiter \<Rightarrow> nat" where
  "waiter_chan (WithErrorType ch) = ch"
| "waiter_chan (WithoutErrorType ch) = ch"
| "waiter_chan (Boxed ch) = ch"
| "waiter_chan (BoxedWithError ch) = ch"

text \<open>
  What a requester receives: a typed \<open>Result<R, _>\<close> or a boxed
  \<open>Result<Box<dyn Message>, _>\<close>; the error side is \<open>Error<(), E>\<close> or \<open>Error\<close>
  (\<open>Error<(), VoidError>\<close>), one HOL type told apart by \<open>void_typed\<close>.
\<close>

datatype 'u reply =
    RTyped "('u, (unit, 'u) error) result"
  | RBoxed "('u dyn, (unit, 'u) error) result"

datatype 'u chan = ChOpen | ChSent "'u reply" | ChRxDropped | ChTxDropped

record 'u wrapper =
  rw_context :: receiver_context
  waiters :: "waiter slab"
  chans :: "nat \<Rightarrow> 'u chan"
  next_chan :: nat

text \<open>\<open>oneshot::Sender::send\<close>: fails, handing the value back, once the receiver is gone.\<close>

definition oneshot_send :: "nat \<Rightarrow> 'u reply \<Rightarrow> (nat \<Rightarrow> 'u chan) \<Rightarrow> (nat \<Rightarrow> 'u chan, 'u reply) result" where
  "oneshot_send ch v cs = (case cs ch of ChOpen \<Rightarrow> Ok (cs(ch := ChSent v)) | _ \<Rightarrow> Err v)"

text \<open>The conversion of \<open>ReceiverWrapper::response\<close> (lines 254--266) per waiter variant.\<close>

fun deliver :: "rty \<Rightarrow> rty \<Rightarrow> waiter \<Rightarrow> ('u, (unit, 'u) error) result \<Rightarrow> 'u reply" where
  "deliver R E (WithErrorType ch) resp = RTyped resp"
| "deliver R E (WithoutErrorType ch) resp = RTyped (map_result id (into_dyn E) resp)"
| "deliver R E (Boxed ch) resp = RBoxed (map_result (into_boxed R) (into_dyn E) resp)"
| "deliver R E (BoxedWithError ch) resp = RBoxed (map_result (into_boxed R) id resp)"

text \<open>
  \<open>ReceiverWrapper::response\<close> (lines 252--270): take the waiter of \<open>mid\<close> out of the
  slab (\<open>mid as usize\<close>) and send it the converted response with \<open>.unwrap()\<close>; an
  unknown \<open>mid\<close> is ignored and \<open>Ok(())\<close> returned.
\<close>

definition wrapper_response :: "rty \<Rightarrow> rty \<Rightarrow> mid \<Rightarrow> ('u, (unit, 'u) error) result \<Rightarrow> 'u wrapper \<Rightarrow> 'u wrapper may_panic" where
  "wrapper_response R E m resp w =
     (case slab_take (unat m) (waiters w) of
        None \<Rightarrow> Inr w
      | Some (wt, sl') \<Rightarrow>
          (case unwrap (oneshot_send (waiter_chan wt) (deliver R E wt resp) (chans w)) of
             Inl p \<Rightarrow> Inl p
           | Inr cs \<Rightarrow> Inr (w\<lparr>waiters := sl', chans := cs\<rparr>)))"

text \<open>
  The four \<open>add_response_listener\<close> impls insert their variant into the slab; a full
  slab is \<open>Error::AddListenerError\<close>, and the key is returned \<open>as u64\<close>.
\<close>

definition insert_waiter :: "waiter \<Rightarrow> 'u wrapper \<Rightarrow> (mid \<times> 'u wrapper, (unit, 'u) error) result" where
  "insert_waiter wt w =
     (case slab_insert wt (waiters w) of
        None \<Rightarrow> Err AddListenerError
      | Some (k, sl') \<Rightarrow> Ok (of_nat k, w\<lparr>waiters := sl'\<rparr>))"

definition add_response_listener_re :: "nat \<Rightarrow> 'u wrapper \<Rightarrow> (mid \<times> 'u wrapper, (unit, 'u) error) result" where
  "add_response_listener_re ch w = insert_waiter (WithErrorType ch) w"

definition add_response_listener_r :: "nat \<Rightarrow> 'u wrapper \<Rightarrow> (mid \<times> 'u wrapper, (unit, 'u) error) result" where
  "add_response_listener_r ch w = insert_waiter (WithoutErrorType ch) w"

definition add_response_listener_e :: "nat \<Rightarrow> 'u wrapper \<Rightarrow> (mid \<times> 'u wrapper, (unit, 'u) error) result" where
  "add_response_listener_e ch w = insert_waiter (BoxedWithError ch) w"

definition add_response_listener_boxed :: "nat \<Rightarrow> 'u wrapper \<Rightarrow> (mid \<times> 'u wrapper, (unit, 'u) error) result" where
  "add_response_listener_boxed ch w = insert_waiter (Boxed ch) w"

text \<open>
  \<open>Receiver::add_response_waiter*\<close> (lines 807--903): open a oneshot channel, register
  its sender with the listener of the requested variant (through the \<open>wrapper()\<close>
  casts, which a \<open>ReceiverWrapper\<close> always offers) and return the id with the
  receiving end. If the registration fails the channel is dropped with it.
\<close>

definition add_response_waiter_gen ::
  "(nat \<Rightarrow> 'u wrapper \<Rightarrow> (mid \<times> 'u wrapper, (unit, 'u) error) result) \<Rightarrow> 'u wrapper \<Rightarrow>
   ((mid \<times> nat) \<times> 'u wrapper, (unit, 'u) error) result" where
  "add_response_waiter_gen listen w =
     (let ch = next_chan w;
          w1 = w\<lparr>chans := (chans w)(ch := ChOpen), next_chan := Suc ch\<rparr>
      in case listen ch w1 of
           Err e \<Rightarrow> Err e
         | Ok (m, w2) \<Rightarrow> Ok ((m, ch), w2))"

definition add_response_waiter_boxed :: "'u wrapper \<Rightarrow> ((mid \<times> nat) \<times> 'u wrapper, (unit, 'u) error) result" where
  "add_response_waiter_boxed = add_response_waiter_gen add_response_listener_boxed"

definition add_response_waiter_boxed_we :: "'u wrapper \<Rightarrow> ((mid \<times> nat) \<times> 'u wrapper, (unit, 'u) error) result" where
  "add_response_waiter_boxed_we = add_response_waiter_gen add_response_listener_e"

definition add_response_waiter :: "'u wrapper \<Rightarrow> ((mid \<times> nat) \<times> 'u wrapper, (unit, 'u) error) result" where
  "add_response_waiter = add_response_waiter_gen add_response_listener_r"

definition add_response_waiter_we :: "'u wrapper \<Rightarrow> ((mid \<times> nat) \<times> 'u wrapper, (unit, 'u) error) result" where
  "add_response_waiter_we = add_response_waiter_gen add_response_listener_re"

text \<open>
  The response future of a requester: pending while the channel is open, the sent
  value once there is one, and \<open>Err(Error::from(RecvError))\<close>, that is \<open>NoResponse\<close>,
  when the sender was dropped. \<open>boxed\<close> tells which result type the future has.
\<close>

definition await_reply :: "bool \<Rightarrow> 'u chan \<Rightarrow> 'u reply option" where
  "await_reply boxed c =
     (case c of
        ChSent v \<Rightarrow> Some v
      | ChTxDropped \<Rightarrow> Some (if boxed then RBoxed (Err from_recv_error) else RTyped (Err from_recv_error))
      | _ \<Rightarrow> None)"

text \<open>Dropping the response future (cancellation by the requester).\<close>

definition drop_reply_future :: "nat \<Rightarrow> 'u wrapper \<Rightarrow> 'u wrapper" where
  "drop_reply_future ch w = w\<lparr>chans := (chans w)(ch := ChRxDropped)\<rparr>"

subsection \<open>Observations on replies\<close>

text \<open>The four variants the \<open>add_response_waiter*\<close> functions register.\<close>

definition waiter_variants :: "(nat \<Rightarrow> waiter) set" where
  "waiter_variants = {WithErrorType, WithoutErrorType, Boxed, BoxedWithError}"

text \<open>
  The value a requester reads from a reply: a typed \<open>Ok\<close>, or a boxed one downcast to
  \<open>R\<close> (as \<open>add_response_waiter\<close>'s boxed branch does); and the error it reads.
\<close>

fun reply_ok_value :: "rty \<Rightarrow> 'u reply \<Rightarrow> 'u option" where
  "reply_ok_value R (RTyped (Ok v)) = Some v"
| "reply_ok_value R (RBoxed (Ok b)) = (case downcast R b of Inr v \<Rightarrow> Some v | Inl _ \<Rightarrow> None)"
| "reply_ok_value R _ = None"

fun reply_error :: "'u reply \<Rightarrow> (unit, 'u) error option" where
  "reply_error (RTyped (Err e)) = Some e"
| "reply_error (RBoxed (Err e)) = Some e"
| "reply_error _ = None"

fun names_error_type :: "waiter \<Rightarrow> bool" where
  "names_error_type (WithErrorType _) = True"
| "names_error_type (BoxedWithError _) = True"
| "names_error_type _ = False"

text \<open>A wrapper with an empty slab of four slots and two generations, for witnesses.\<close>

definition example_wrapper :: "int wrapper" where
  "example_wrapper =
     \<lparr>rw_context = receiver_context_new 1, waiters = slab_new 4 2, chans = (\<lambda>_. ChTxDropped),
      next_chan = 0\<rparr>"

subsection \<open>Registration and delivery\<close>

lemma waiter_variants_chan: "V \<in> waiter_variants \<Longrightarrow> waiter_chan (V ch) = ch"
  by (auto simp: waiter_variants_def)

lemma unat_of_nat_key: "k < 2 ^ 63 \<Longrightarrow> unat (of_nat k :: mid) = k"
proof -
  assume "k < 2 ^ 63"
  then have "k < 2 ^ LENGTH(64)" by simp
  then show ?thesis by (simp add: unat_of_nat)
qed

text \<open>Registration: the fresh channel is open and the slab holds the waiter under the returned id.\<close>

lemma add_response_waiter_gen_Ok:
  assumes reg: "add_response_waiter_gen (\<lambda>c. insert_waiter (V c)) w = Ok ((m, ch), w1)"
    and wf: "slab_wf (waiters w)"
  shows "ch = next_chan w \<and> chans w1 ch = ChOpen \<and> slab_wf (waiters w1) \<and>
         (\<exists>sl'. slab_take (unat m) (waiters w1) = Some (V ch, sl')) \<and>
         rw_context w1 = rw_context w"
proof -
  from reg obtain k sl where ins: "slab_insert (V (next_chan w)) (waiters w) = Some (k, sl)"
    and ch: "ch = next_chan w" and m: "m = of_nat k"
    and w1: "w1 = w\<lparr>chans := (chans w)(next_chan w := ChOpen), next_chan := Suc (next_chan w), waiters := sl\<rparr>"
    by (auto simp: add_response_waiter_gen_def insert_waiter_def Let_def split: option.splits result.splits)
  have "unat m = k" using m slab_insert_key_bound [OF ins wf] unat_of_nat_key by simp
  then show ?thesis
    using ch w1 slab_take_insert [OF ins wf] slab_insert_wf [OF ins wf] by auto
qed

text \<open>
  C6: a requester that registered a waiter of any variant receives the handler's
  response on its channel, converted for its variant, when the event loop delivers the
  response for the returned id; a second response for the same id is ignored, so
  each id is fulfilled at most once.
\<close>

theorem waiter_receives_response_once:
  assumes reg: "add_response_waiter_gen (\<lambda>c. insert_waiter (V c)) w = Ok ((m, ch), w1)"
    and var: "V \<in> waiter_variants"
    and wf: "slab_wf (waiters w)"
  shows "\<exists>w2. wrapper_response R E m resp w1 = Inr w2 \<and>
              chans w2 ch = ChSent (deliver R E (V ch) resp) \<and>
              wrapper_response R E m resp' w2 = Inr w2"
proof -
  from add_response_waiter_gen_Ok [OF reg wf] obtain sl' where
    opn: "chans w1 ch = ChOpen" and tk: "slab_take (unat m) (waiters w1) = Some (V ch, sl')"
    by blast
  let ?w2 = "w1\<lparr>waiters := sl', chans := (chans w1)(ch := ChSent (deliver R E (V ch) resp))\<rparr>"
  have r1: "wrapper_response R E m resp w1 = Inr ?w2"
    using opn tk waiter_variants_chan [OF var]
    by (simp add: wrapper_response_def oneshot_send_def unwrap_def)
  have "slab_take (unat m) sl' = None" using tk by (rule slab_take_twice)
  then have r2: "wrapper_response R E m resp' ?w2 = Inr ?w2" by (simp add: wrapper_response_def)
  from r1 r2 show ?thesis by auto
qed


text \<open>
  C9: when the requester has dropped its response future before the response arrives,
  \<open>ReceiverWrapper::response\<close> panics on \<open>sender.send(..).unwrap()\<close> instead of
  discarding the response.
\<close>

theorem dropped_listener_panics:
  assumes reg: "add_response_waiter_gen (\<lambda>c. insert_waiter (V c)) w = Ok ((m, ch), w1)"
    and var: "V \<in> waiter_variants"
    and wf: "slab_wf (waiters w)"
  shows "\<exists>p. wrapper_response R E m resp (drop_reply_future ch w1) = Inl p"
proof -
  from add_response_waiter_gen_Ok [OF reg wf] obtain sl' where
    tk: "slab_take (unat m) (waiters w1) = Some (V ch, sl')"
    by blast
  then show ?thesis using waiter_variants_chan [OF var]
    by (simp add: wrapper_response_def drop_reply_future_def oneshot_send_def unwrap_def)
qed

lemma example_registration:
  "add_response_waiter_gen (\<lambda>c. insert_waiter (Boxed c)) example_wrapper =
     Ok ((0, 0), example_wrapper\<lparr>chans := (\<lambda>_. ChTxDropped)(0 := ChOpen), next_chan := 1,
                                 waiters := \<lparr>slots = [(0, Some (Boxed 0))], max_slots = 4, max_gens = 2\<rparr>\<rparr>)"
  by (simp add: add_response_waiter_gen_def insert_waiter_def example_wrapper_def slab_insert_def
      slab_new_def slab_key_def)

theorem dropped_listener_panics_witness:
  "\<exists>p. wrapper_response (RTy ''u8'' []) (RTy ''Error'' []) 0 (Ok (9::int))
        (drop_reply_future 0
          (example_wrapper\<lparr>chans := (\<lambda>_. ChTxDropped)(0 := ChOpen), next_chan := 1,
             waiters := \<lparr>slots = [(0, Some (Boxed 0))], max_slots = 4, max_gens = 2\<rparr>\<rparr>)) = Inl p"
  by (rule dropped_listener_panics [OF example_registration])
     (simp_all add: waiter_variants_def example_wrapper_def slab_wf_def slab_new_def)

theorem waiter_receives_response_once_witness:
  "\<exists>w2. wrapper_response (RTy ''u8'' []) (RTy ''Error'' []) 0 (Ok (9::int))
          (example_wrapper\<lparr>chans := (\<lambda>_. ChTxDropped)(0 := ChOpen), next_chan := 1,
             waiters := \<lparr>slots = [(0, Some (Boxed 0))], max_slots = 4, max_gens = 2\<rparr>\<rparr>) = Inr w2 \<and>
        chans w2 0 = ChSent (deliver (RTy ''u8'' []) (RTy ''Error'' []) (Boxed 0) (Ok (9::int))) \<and>
        wrapper_response (RTy ''u8'' []) (RTy ''Error'' []) 0 (Ok 10) w2 = Inr w2"
  by (rule waiter_receives_response_once [OF example_registration])
     (simp_all add: waiter_variants_def example_wrapper_def slab_wf_def slab_new_def)

end
