(* ===== verification/Event_Loop.thy ===== *)
theory Event_Loop
  imports Waiters
begin

text \<open>
  The event-poll loop of a receiver (\<open>start_polling_events\<close>, lines 198--240 of
  \<open>src/src/receiver.rs\<close>) with the types it consumes: \<open>Stats\<close> (lines 140--153),
  \<open>Action\<close> (lines 155--163) and \<open>Event\<close> (lines 165--176). The strategy's
  \<open>poll_events\<close> is the environment: the loop is run over the list of events it yields,
  in order. A run ends \<open>LoopExited\<close> at the first \<open>Exited\<close> (the \<open>break\<close>),
  \<open>LoopPanicked\<close> at a panic (the \<open>unimplemented!()\<close> arm, or the \<open>unwrap\<close> in
  \<open>response\<close>), and is \<open>LoopPending\<close> when the events run out: the task then waits in
  \<open>poll_events\<close> for more.
\<close>

record stats =
  has_queue :: bool
  queue_capacity :: u64
  queue_size :: u64
  has_parallel :: bool
  parallel_capacity :: u64
  parallel_size :: u64
  has_batch :: bool
  batch_capacity :: u64
  batch_size :: u64

datatype action = Init | Flush | Sync | Close | StatsAction

datatype 'u event =
    Response mid "('u, (unit, 'u) error) result"
  | Synchronized "(unit, (unit, 'u) error) result"
  | InitFailed "(unit, 'u) error"
  | StatsEvent stats
  | Flushed
  | Exited
  | Ready
  | Pause

datatype loop_ctl = Continue | Break

definition update_context :: "(receiver_context \<Rightarrow> receiver_context) \<Rightarrow> 'u wrapper \<Rightarrow> 'u wrapper" where
  "update_context f w = w\<lparr>rw_context := f (rw_context w)\<rparr>"

text \<open>One iteration of the loop's \<open>match event\<close>.\<close>

fun handle_event :: "rty \<Rightarrow> rty \<Rightarrow> 'u event \<Rightarrow> 'u wrapper \<Rightarrow> (loop_ctl \<times> 'u wrapper) may_panic" where
  "handle_event R E Pause w = Inr (Continue, update_context (\<lambda>c. c\<lparr>ready_flag := False\<rparr>) w)"
| "handle_event R E Ready w =
     Inr (Continue, update_context (\<lambda>c. (c\<lparr>ready := snd (notify_waiters (ready c))\<rparr>)\<lparr>ready_flag := True\<rparr>) w)"
| "handle_event R E (InitFailed err) w =
     Inr (Continue, update_context (\<lambda>c. (c\<lparr>ready := snd (notify_waiters (ready c))\<rparr>)\<lparr>ready_flag := False\<rparr>) w)"
| "handle_event R E Exited w =
     Inr (Break, update_context (\<lambda>c. c\<lparr>closed := snd (notify_waiters (closed c))\<rparr>) w)"
| "handle_event R E Flushed w =
     Inr (Continue, update_context (\<lambda>c. c\<lparr>flushed := snd (notify_waiters (flushed c))\<rparr>) w)"
| "handle_event R E (Synchronized res) w =
     Inr (Continue, update_context (\<lambda>c. c\<lparr>synchronized := snd (notify_waiters (synchronized c))\<rparr>) w)"
| "handle_event R E (Response m resp) w =
     (let w1 = update_context (\<lambda>c. c\<lparr>processing := processing c - 1\<rparr>) w;
          w2 = update_context (\<lambda>c. c\<lparr>response := snd (notify_one (response c))\<rparr>) w1
      in case wrapper_response R E m resp w2 of
           Inl p \<Rightarrow> Inl p
         | Inr w3 \<Rightarrow> Inr (Continue, w3))"
| "handle_event R E (StatsEvent st) w = Inl (Panic ''not implemented'')"

datatype 'u loop_outcome =
    LoopPending "'u wrapper"
  | LoopExited "'u wrapper"
  | LoopPanicked panic

text \<open>The \<open>loop\<close> of \<open>start_polling_events\<close> over the events \<open>poll_events\<close> yields.\<close>

fun run_events :: "rty \<Rightarrow> rty \<Rightarrow> 'u event list \<Rightarrow> 'u wrapper \<Rightarrow> 'u loop_outcome" where
  "run_events R E [] w = LoopPending w"
| "run_events R E (ev # evs) w =
     (case handle_event R E ev w of
        Inl p \<Rightarrow> LoopPanicked p
      | Inr (Break, w') \<Rightarrow> LoopExited w'
      | Inr (Continue, w') \<Rightarrow> run_events R E evs w')"

text \<open>Observations on event lists.\<close>

fun is_response :: "'u event \<Rightarrow> bool" where
  "is_response (Response _ _) = True"
| "is_response _ = False"

fun readiness :: "'u event \<Rightarrow> bool option" where
  "readiness Ready = Some True"
| "readiness Pause = Some False"
| "readiness (InitFailed _) = Some False"
| "readiness _ = None"

fun last_readiness :: "'u event list \<Rightarrow> bool option" where
  "last_readiness [] = None"
| "last_readiness (ev # evs) = (case last_readiness evs of None \<Rightarrow> readiness ev | Some b \<Rightarrow> Some b)"

fun stops_loop :: "'u event \<Rightarrow> bool" where
  "stops_loop Exited = True"
| "stops_loop (StatsEvent _) = True"
| "stops_loop _ = False"

subsection \<open>Properties of the loop\<close>

lemma wrapper_response_context:
  "wrapper_response R E m resp w = Inr w' \<Longrightarrow> rw_context w' = rw_context w"
  by (auto simp: wrapper_response_def split: option.splits sum.splits prod.splits)

lemma handle_event_Continue:
  assumes "handle_event R E ev w = Inr (Continue, w')"
  shows "processing (rw_context w') = processing (rw_context w) - (if is_response ev then 1 else 0) \<and>
         limit (rw_context w') = limit (rw_context w) \<and>
         ready_flag (rw_context w') = (case readiness ev of None \<Rightarrow> ready_flag (rw_context w) | Some b \<Rightarrow> b)"
  using assms
  by (cases ev)
     (auto simp: update_context_def Let_def dest!: wrapper_response_context split: sum.splits)

lemma handle_event_stops:
  "stops_loop ev \<Longrightarrow> handle_event R E ev w \<noteq> Inr (Continue, w')"
  by (cases ev) (auto simp: update_context_def)

text \<open>
  C10: once the loop meets \<open>Exited\<close> (it breaks) or a \<open>Stats\<close> event (the
  \<open>unimplemented!()\<close> arm panics), no later event of the stream is processed: no
  response, flush or synchronization is acted on after the receiver exited.
\<close>

theorem run_events_ignores_after_stop:
  assumes "stops_loop ev"
  shows "run_events R E (evs @ ev # rest) w = run_events R E (evs @ [ev]) w"
proof (induction evs arbitrary: w)
  case Nil
  from assms show ?case by (cases ev) (simp_all add: update_context_def)
next
  case (Cons e evs)
  then show ?case by (simp split: sum.splits loop_ctl.splits prod.splits)
qed

theorem run_events_ignores_after_stop_witness:
  "stops_loop (Exited :: int event) \<and>
   run_events (RTy ''u8'' []) (RTy ''Error'' []) ([Ready] @ Exited # [Response 0 (Ok (1::int))]) example_wrapper =
   run_events (RTy ''u8'' []) (RTy ''Error'' []) ([Ready] @ [Exited]) example_wrapper"
  using run_events_ignores_after_stop [of "Exited :: int event" "RTy ''u8'' []" "RTy ''Error'' []" "[Ready]"
      "[Response 0 (Ok (1::int))]" example_wrapper]
  by simp

text \<open>
  C11: a run of the loop that is still polling has decremented \<open>processing\<close> once per
  \<open>Response\<close> event (in \<open>u64\<close> arithmetic, whether or not the id had a waiter), has
  kept the limit, and leaves \<open>ready_flag\<close> as the last of \<open>Ready\<close> (set),
  \<open>Pause\<close> and \<open>InitFailed\<close> (cleared) set it.
\<close>

theorem run_events_counter_and_readiness:
  assumes "run_events R E evs w = LoopPending w'"
  shows "processing (rw_context w') = processing (rw_context w) - of_nat (length (filter is_response evs)) \<and>
         limit (rw_context w') = limit (rw_context w) \<and>
         ready_flag (rw_context w') =
           (case last_readiness evs of None \<Rightarrow> ready_flag (rw_context w) | Some b \<Rightarrow> b)"
  using assms
proof (induction evs arbitrary: w)
  case Nil
  then show ?case by simp
next
  case (Cons ev evs)
  from Cons.prems obtain w1 where h: "handle_event R E ev w = Inr (Continue, w1)"
    and r: "run_events R E evs w1 = LoopPending w'"
    by (auto split: sum.splits loop_ctl.splits prod.splits)
  from Cons.IH [OF r] handle_event_Continue [OF h] show ?case
    by (auto simp: of_nat_Suc algebra_simps split: option.splits)
qed

theorem run_events_counter_and_readiness_witness:
  "run_events (RTy ''u8'' []) (RTy ''Error'' []) [Ready, Response 7 (Ok (1::int)), Pause] example_wrapper =
     LoopPending (update_context (\<lambda>c. c\<lparr>processing := - 1, ready_flag := False,
        ready := \<lparr>n_calls = 1, n_permit = False, n_waiters = []\<rparr>,
        response := \<lparr>n_calls = 0, n_permit = True, n_waiters = []\<rparr>\<rparr>) example_wrapper) \<and>
   processing (rw_context (update_context (\<lambda>c. c\<lparr>processing := - 1, ready_flag := False,
        ready := \<lparr>n_calls = 1, n_permit = False, n_waiters = []\<rparr>,
        response := \<lparr>n_calls = 0, n_permit = True, n_waiters = []\<rparr>\<rparr>) example_wrapper)) = 0 - 1"
proof -
  have run: "run_events (RTy ''u8'' []) (RTy ''Error'' []) [Ready, Response 7 (Ok (1::int)), Pause] example_wrapper =
     LoopPending (update_context (\<lambda>c. c\<lparr>processing := - 1, ready_flag := False,
        ready := \<lparr>n_calls = 1, n_permit = False, n_waiters = []\<rparr>,
        response := \<lparr>n_calls = 0, n_permit = True, n_waiters = []\<rparr>\<rparr>) example_wrapper)"
    by (simp add: example_wrapper_def update_context_def receiver_context_new_def notify_new_def
        notify_waiters_def notify_one_def wrapper_response_def slab_take_def slab_new_def)
  show ?thesis using run_events_counter_and_readiness [OF run] run
    by (simp add: example_wrapper_def update_context_def receiver_context_new_def)
qed

end
