(* ===== verification/Lifecycle.thy ===== *)
theory Lifecycle
  imports Event_Loop
begin

text \<open>
  The readiness handshake under concurrency. \<open>Receiver::ready\<close> (lines 914--920 of
  \<open>src/src/receiver.rs\<close>) creates the \<open>notified()\<close> future of the \<open>ready\<close> notify
  first, then reads \<open>ready_flag\<close>, and awaits the future only when the flag is
  false. The event loop's \<open>Event::Ready\<close> arm (lines 210--213) runs two atomic
  operations: \<open>ready.notify_waiters()\<close> and then \<open>ready_flag.store(true)\<close>.
  Any number of tasks call \<open>ready()\<close> while the loop handles one \<open>Ready\<close> event;
  each atomic operation is one step. A parked caller is woken when
  \<open>notify_waiters\<close> removed it from the waiter list; its next poll completes.

  \<open>ready_step\<close> follows the code's order. \<open>ready_step_spec\<close> is the order the spec
  prescribes (section 4.5: \<open>ready_flag := true\<close>, then fire \<open>ready\<close>), for comparison.
\<close>

datatype cpc =
    CStart
  | CCreated nat     \<comment> \<open>\<open>notified()\<close> created with this snapshot\<close>
  | CAwait nat       \<comment> \<open>read \<open>ready_flag = false\<close>, about to poll the future\<close>
  | CParked          \<comment> \<open>the first poll returned \<open>Pending\<close>\<close>
  | CDone            \<comment> \<open>\<open>ready()\<close> returned\<close>

datatype lpc = LIdle | LMid | LDone

record rstate =
  rctx :: receiver_context
  lpc :: lpc
  cpcs :: "cpc list"

definition rinit :: "nat \<Rightarrow> rstate" where
  "rinit n = \<lparr>rctx = receiver_context_new 1, lpc = LIdle, cpcs = replicate n CStart\<rparr>"

definition fire_ready :: "receiver_context \<Rightarrow> receiver_context" where
  "fire_ready c = c\<lparr>ready := snd (notify_waiters (ready c))\<rparr>"

definition store_ready :: "receiver_context \<Rightarrow> receiver_context" where
  "store_ready c = c\<lparr>ready_flag := True\<rparr>"

text \<open>The steps of the \<open>ready()\<close> callers, shared by both orders.\<close>

inductive caller_step :: "rstate \<Rightarrow> rstate \<Rightarrow> bool" where
  create:
    "i < length (cpcs s) \<Longrightarrow> cpcs s ! i = CStart \<Longrightarrow>
     caller_step s (s\<lparr>cpcs := (cpcs s)[i := CCreated (notified (ready (rctx s)))]\<rparr>)"
| check:
    "i < length (cpcs s) \<Longrightarrow> cpcs s ! i = CCreated snap \<Longrightarrow>
     caller_step s (s\<lparr>cpcs := (cpcs s)[i := (if ready_flag (rctx s) then CDone else CAwait snap)]\<rparr>)"
| poll:
    "i < length (cpcs s) \<Longrightarrow> cpcs s ! i = CAwait snap \<Longrightarrow>
     poll_notified i snap (ready (rctx s)) = (rdy, n') \<Longrightarrow>
     caller_step s (s\<lparr>rctx := (rctx s)\<lparr>ready := n'\<rparr>,
                      cpcs := (cpcs s)[i := (if rdy then CDone else CParked)]\<rparr>)"
| woken:
    "i < length (cpcs s) \<Longrightarrow> cpcs s ! i = CParked \<Longrightarrow> i \<notin> set (n_waiters (ready (rctx s))) \<Longrightarrow>
     caller_step s (s\<lparr>cpcs := (cpcs s)[i := CDone]\<rparr>)"

text \<open>The code: notify first, store second.\<close>

inductive ready_step :: "rstate \<Rightarrow> rstate \<Rightarrow> bool" where
  caller: "caller_step s t \<Longrightarrow> ready_step s t"
| notify_first: "lpc s = LIdle \<Longrightarrow> ready_step s (s\<lparr>rctx := fire_ready (rctx s), lpc := LMid\<rparr>)"
| store_second: "lpc s = LMid \<Longrightarrow> ready_step s (s\<lparr>rctx := store_ready (rctx s), lpc := LDone\<rparr>)"

text \<open>The spec's order: store first, notify second.\<close>

inductive ready_step_spec :: "rstate \<Rightarrow> rstate \<Rightarrow> bool" where
  caller: "caller_step s t \<Longrightarrow> ready_step_spec s t"
| store_first: "lpc s = LIdle \<Longrightarrow> ready_step_spec s (s\<lparr>rctx := store_ready (rctx s), lpc := LMid\<rparr>)"
| notify_second: "lpc s = LMid \<Longrightarrow> ready_step_spec s (s\<lparr>rctx := fire_ready (rctx s), lpc := LDone\<rparr>)"

text \<open>
  Under the spec's order, the loop's state determines the notify and the flag, a
  caller that found the flag false took its snapshot before the notification, and a
  caller still parked before the notification is in the waiter list, which the
  notification empties.
\<close>

definition ready_spec_inv :: "rstate \<Rightarrow> bool" where
  "ready_spec_inv s \<longleftrightarrow>
     n_calls (ready (rctx s)) = (if lpc s = LDone then 1 else 0) \<and>
     (ready_flag (rctx s) \<longleftrightarrow> lpc s \<noteq> LIdle) \<and>
     \<not> n_permit (ready (rctx s)) \<and>
     (\<forall>i<length (cpcs s). \<forall>snap. cpcs s ! i = CCreated snap \<longrightarrow> snap \<le> n_calls (ready (rctx s))) \<and>
     (\<forall>i<length (cpcs s). \<forall>snap. cpcs s ! i = CAwait snap \<longrightarrow> snap = 0) \<and>
     (\<forall>i<length (cpcs s). cpcs s ! i = CParked \<and> lpc s \<noteq> LDone \<longrightarrow> i \<in> set (n_waiters (ready (rctx s)))) \<and>
     (lpc s = LDone \<longrightarrow> n_waiters (ready (rctx s)) = [])"

subsection \<open>The readiness race\<close>

lemmas ready_concrete_simps = rinit_def receiver_context_new_def notify_new_def notified_def
  poll_notified_def fire_ready_def store_ready_def notify_waiters_def

text \<open>
  C7: with the code's order a \<open>ready()\<close> caller can miss the readiness event: the
  loop fires \<open>notify_waiters\<close>, the caller then creates its future and reads the
  still-false flag, parks, and the loop stores \<open>true\<close>. The caller stays parked with
  the flag set and no step enabled.
\<close>

theorem ready_lost_wakeup:
  "\<exists>s. ready_step\<^sup>*\<^sup>* (rinit 1) s \<and> cpcs s = [CParked] \<and> lpc s = LDone \<and>
       ready_flag (rctx s) \<and> (\<forall>t. \<not> ready_step s t)"
proof -
  let ?s0 = "rinit 1"
  let ?s1 = "?s0\<lparr>rctx := fire_ready (rctx ?s0), lpc := LMid\<rparr>"
  let ?s2 = "?s1\<lparr>cpcs := (cpcs ?s1)[0 := CCreated (notified (ready (rctx ?s1)))]\<rparr>"
  let ?s3 = "?s2\<lparr>cpcs := (cpcs ?s2)[0 := (if ready_flag (rctx ?s2) then CDone else CAwait 1)]\<rparr>"
  let ?n = "(ready (rctx ?s3))\<lparr>n_waiters := n_waiters (ready (rctx ?s3)) @ [0]\<rparr>"
  let ?s4 = "?s3\<lparr>rctx := (rctx ?s3)\<lparr>ready := ?n\<rparr>, cpcs := (cpcs ?s3)[0 := (if False then CDone else CParked)]\<rparr>"
  let ?s5 = "?s4\<lparr>rctx := store_ready (rctx ?s4), lpc := LDone\<rparr>"
  have 1: "ready_step ?s0 ?s1" by (rule ready_step.notify_first) (simp add: ready_concrete_simps)
  have 2: "ready_step ?s1 ?s2"
    by (rule ready_step.caller, rule caller_step.create) (simp_all add: ready_concrete_simps)
  have 3: "ready_step ?s2 ?s3"
    by (rule ready_step.caller, rule caller_step.check [where snap = 1]) (simp_all add: ready_concrete_simps)
  have 4: "ready_step ?s3 ?s4"
    by (rule ready_step.caller, rule caller_step.poll [where snap = 1]) (simp_all add: ready_concrete_simps)
  have 5: "ready_step ?s4 ?s5" by (rule ready_step.store_second) simp
  have r: "ready_step\<^sup>*\<^sup>* ?s0 ?s5"
    using 1 2 3 4 5 by (meson rtranclp.rtrancl_into_rtrancl rtranclp.rtrancl_refl)
  have st: "cpcs ?s5 = [CParked]" "lpc ?s5 = LDone" "n_waiters (ready (rctx ?s5)) = [0]"
    "ready_flag (rctx ?s5)"
    by (simp_all add: ready_concrete_simps)
  have stuck: "\<forall>t. \<not> ready_step ?s5 t"
  proof (intro allI notI)
    fix t assume "ready_step ?s5 t"
    then show False
    proof (cases rule: ready_step.cases)
      case caller
      then show False using st by (auto elim!: caller_step.cases)
    qed (use st in simp_all)
  qed
  show ?thesis by (rule exI [of _ ?s5]) (use r st stuck in simp)
qed

lemma ready_spec_inv_init: "ready_spec_inv (rinit n)"
  by (simp add: ready_spec_inv_def ready_concrete_simps)

lemma caller_step_spec_inv: "caller_step s t \<Longrightarrow> ready_spec_inv s \<Longrightarrow> ready_spec_inv t"
proof (induction rule: caller_step.induct)
  case (create i s)
  then show ?case by (auto simp: ready_spec_inv_def nth_list_update notified_def)
next
  case (check i s snap)
  then show ?case by (auto simp: ready_spec_inv_def nth_list_update)
next
  case (poll i s snap rdy n')
  then show ?case
    by (auto simp: ready_spec_inv_def nth_list_update poll_notified_def split: if_splits)
next
  case (woken i s)
  then show ?case by (auto simp: ready_spec_inv_def nth_list_update)
qed

lemma ready_step_spec_inv: "ready_step_spec s t \<Longrightarrow> ready_spec_inv s \<Longrightarrow> ready_spec_inv t"
proof (induction rule: ready_step_spec.induct)
  case (caller s t)
  then show ?case by (rule caller_step_spec_inv)
next
  case (store_first s)
  then show ?case by (auto simp: ready_spec_inv_def store_ready_def)
next
  case (notify_second s)
  then show ?case by (auto simp: ready_spec_inv_def fire_ready_def notify_waiters_def)
qed

text \<open>
  C20: with the spec's order (store, then notify) no caller is lost: once the loop has
  handled \<open>Ready\<close>, every caller still parked has been removed from the waiter list and
  its next poll completes.
\<close>

theorem ready_spec_order_wakes_all:
  assumes "ready_step_spec\<^sup>*\<^sup>* (rinit n) s" and "lpc s = LDone"
    and "i < length (cpcs s)" and "cpcs s ! i = CParked"
  shows "ready_step_spec s (s\<lparr>cpcs := (cpcs s)[i := CDone]\<rparr>)"
proof -
  have "ready_spec_inv s"
    using assms(1) by (induction rule: rtranclp_induct) (auto intro: ready_spec_inv_init ready_step_spec_inv)
  then have "i \<notin> set (n_waiters (ready (rctx s)))" using assms(2) by (simp add: ready_spec_inv_def)
  with assms(3,4) show ?thesis by (blast intro: ready_step_spec.caller caller_step.woken)
qed


lemma ready_spec_trace_parked:
  "ready_step_spec\<^sup>*\<^sup>* (rinit 1)
     \<lparr>rctx = (receiver_context_new 1)\<lparr>ready_flag := True, ready := \<lparr>n_calls = 1, n_permit = False, n_waiters = []\<rparr>\<rparr>,
      lpc = LDone, cpcs = [CParked]\<rparr>"
proof -
  let ?s0 = "rinit 1"
  let ?s1 = "?s0\<lparr>cpcs := (cpcs ?s0)[0 := CCreated (notified (ready (rctx ?s0)))]\<rparr>"
  let ?s2 = "?s1\<lparr>cpcs := (cpcs ?s1)[0 := (if ready_flag (rctx ?s1) then CDone else CAwait 0)]\<rparr>"
  let ?n = "(ready (rctx ?s2))\<lparr>n_waiters := n_waiters (ready (rctx ?s2)) @ [0]\<rparr>"
  let ?s3 = "?s2\<lparr>rctx := (rctx ?s2)\<lparr>ready := ?n\<rparr>, cpcs := (cpcs ?s2)[0 := (if False then CDone else CParked)]\<rparr>"
  let ?s4 = "?s3\<lparr>rctx := store_ready (rctx ?s3), lpc := LMid\<rparr>"
  let ?s5 = "?s4\<lparr>rctx := fire_ready (rctx ?s4), lpc := LDone\<rparr>"
  have 1: "ready_step_spec ?s0 ?s1"
    by (rule ready_step_spec.caller, rule caller_step.create) (simp_all add: ready_concrete_simps)
  have 2: "ready_step_spec ?s1 ?s2"
    by (rule ready_step_spec.caller, rule caller_step.check [where snap = 0]) (simp_all add: ready_concrete_simps)
  have 3: "ready_step_spec ?s2 ?s3"
    by (rule ready_step_spec.caller, rule caller_step.poll [where snap = 0]) (simp_all add: ready_concrete_simps)
  have 4: "ready_step_spec ?s3 ?s4" by (rule ready_step_spec.store_first) (simp add: ready_concrete_simps)
  have 5: "ready_step_spec ?s4 ?s5" by (rule ready_step_spec.notify_second) simp
  have r: "ready_step_spec\<^sup>*\<^sup>* ?s0 ?s5"
    using 1 2 3 4 5 by (meson rtranclp.rtrancl_into_rtrancl rtranclp.rtrancl_refl)
  moreover have "?s5 = \<lparr>rctx = (receiver_context_new 1)\<lparr>ready_flag := True,
      ready := \<lparr>n_calls = 1, n_permit = False, n_waiters = []\<rparr>\<rparr>, lpc = LDone, cpcs = [CParked]\<rparr>"
    by (simp add: ready_concrete_simps)
  ultimately show ?thesis by simp
qed

theorem ready_spec_order_wakes_all_witness:
  "ready_step_spec
     \<lparr>rctx = (receiver_context_new 1)\<lparr>ready_flag := True, ready := \<lparr>n_calls = 1, n_permit = False, n_waiters = []\<rparr>\<rparr>,
      lpc = LDone, cpcs = [CParked]\<rparr>
     \<lparr>rctx = (receiver_context_new 1)\<lparr>ready_flag := True, ready := \<lparr>n_calls = 1, n_permit = False, n_waiters = []\<rparr>\<rparr>,
      lpc = LDone, cpcs = [CDone]\<rparr>"
  using ready_spec_order_wakes_all [OF ready_spec_trace_parked, of 0] by simp

end
