(* ===== verification/Wrapper.thy ===== *)
theory Wrapper
  imports Event_Loop
begin

text \<open>
  The erased receiver interface of \<open>ReceiverWrapper<M, R, E, S>\<close> and the public
  \<open>Receiver\<close> handle (\<open>src/src/receiver.rs\<close>). The static types \<open>M\<close>, \<open>R\<close>, \<open>E\<close>
  of a wrapper are a \<open>wrapper_types\<close> record of runtime types; their tags are
  \<open>tag_of\<close>. A \<open>TypeId\<close> of a trait-object type is a \<open>trait_id\<close>: two are equal
  exactly when the traits and their type arguments are.

  The handler strategy \<open>S\<close> is outside the repository snapshot (spec section 4.2). It
  is modelled from the spec as a bounded FIFO queue that refuses with \<open>Full\<close> when it
  holds \<open>st_cap\<close> messages and with \<open>Closed\<close> once a \<open>Close\<close> action was accepted;
  accepted actions are logged in order.
\<close>

record wrapper_types =
  msg_ty :: rty
  resp_ty :: rty
  err_ty :: rty

record 'u strategy =
  st_queue :: "(mid \<times> 'u) list"
  st_cap :: nat
  st_closed :: bool
  st_actions :: "action list"

definition strategy_send :: "mid \<Rightarrow> 'u \<Rightarrow> 'u strategy \<Rightarrow> ('u strategy, 'u send_error) result" where
  "strategy_send m msg st =
     (if st_closed st then Err (Closed msg)
      else if st_cap st \<le> length (st_queue st) then Err (Full msg)
      else Ok (st\<lparr>st_queue := st_queue st @ [(m, msg)]\<rparr>))"

definition strategy_send_action :: "action \<Rightarrow> 'u strategy \<Rightarrow> ('u strategy, action send_error) result" where
  "strategy_send_action a st =
     (if st_closed st then Err (Closed a)
      else Ok (st\<lparr>st_actions := st_actions st @ [a], st_closed := (a = Close)\<rparr>))"

subsection \<open>\<open>TypeTagAccept for ReceiverWrapper\<close> (lines 309--335)\<close>

definition accept :: "wrapper_types \<Rightarrow> type_tag \<Rightarrow> type_tag option \<Rightarrow> type_tag option \<Rightarrow> bool" where
  "accept T msg resp err =
     (if (case resp of Some r \<Rightarrow> r \<noteq> tag_of (resp_ty T) | None \<Rightarrow> False) then False
      else if (case err of Some e \<Rightarrow> e \<noteq> tag_of (err_ty T) | None \<Rightarrow> False) then False
      else msg = tag_of (msg_ty T))"

text \<open>
  \<open>iter_types\<close> calls the callback once with \<open>(M, R, E)\<close> and ignores its answer; the
  model returns the list of triples the callback is called with.
\<close>

definition iter_types :: "wrapper_types \<Rightarrow> (type_tag \<times> type_tag \<times> type_tag) list" where
  "iter_types T = [(tag_of (msg_ty T), tag_of (resp_ty T), tag_of (err_ty T))]"

subsection \<open>\<open>ReceiverTrait for ReceiverWrapper\<close>: sending (lines 356--377)\<close>

text \<open>
  \<open>send_boxed\<close>: downcast the envelope to \<open>M\<close> (\<open>MessageCastError\<close> otherwise), then
  the strategy's typed \<open>send\<close>, its error boxed with \<open>SendError::into_boxed\<close>.
\<close>

definition send_boxed :: "wrapper_types \<Rightarrow> mid \<Rightarrow> 'u dyn \<Rightarrow> 'u strategy \<Rightarrow> ('u strategy, ('u dyn, 'u) error) result" where
  "send_boxed T m b st =
     (case downcast (msg_ty T) b of
        Inl _ \<Rightarrow> Err MessageCastError
      | Inr msg \<Rightarrow>
          (case strategy_send m msg st of
             Err se \<Rightarrow> Err (SendError (send_error_into_boxed (msg_ty T) se))
           | Ok st' \<Rightarrow> Ok st'))"

definition send_action :: "action \<Rightarrow> 'u strategy \<Rightarrow> ('u strategy, (action, 'u) error) result" where
  "send_action a st =
     (case strategy_send_action a st of
        Err se \<Rightarrow> Err (SendError se)
      | Ok st' \<Rightarrow> Ok st')"

subsection \<open>The safe-dynamic-cast views (lines 466--596)\<close>

datatype trait_id =
    SendTypedReceiverT rty
  | WrapperReturnTypeOnlyT rty
  | WrapperErrorTypeOnlyT rty
  | WrapperReturnTypeAndErrorT rty rty

text \<open>\<open>AnyReceiver\<close> keeps the \<open>TypeId\<close> of \<open>dyn SendTypedReceiver<M>\<close>.\<close>

record any_receiver =
  ar_typed :: trait_id

definition any_receiver_new :: "wrapper_types \<Rightarrow> any_receiver" where
  "any_receiver_new T = \<lparr>ar_typed = SendTypedReceiverT (msg_ty T)\<rparr>"

definition cast_send_typed :: "rty \<Rightarrow> any_receiver \<Rightarrow> unit option" where
  "cast_send_typed M2 a = (if ar_typed a \<noteq> SendTypedReceiverT M2 then None else Some ())"

record any_wrapper_ref =
  wrapper_r :: trait_id
  wrapper_e :: trait_id
  wrapper_re :: trait_id

definition any_wrapper_ref_new :: "wrapper_types \<Rightarrow> any_wrapper_ref" where
  "any_wrapper_ref_new T =
     \<lparr>wrapper_r = WrapperReturnTypeOnlyT (resp_ty T),
      wrapper_e = WrapperErrorTypeOnlyT (err_ty T),
      wrapper_re = WrapperReturnTypeAndErrorT (resp_ty T) (err_ty T)\<rparr>"

definition cast_ret_only :: "rty \<Rightarrow> any_wrapper_ref \<Rightarrow> unit option" where
  "cast_ret_only R2 a = (if wrapper_r a \<noteq> WrapperReturnTypeOnlyT R2 then None else Some ())"

definition cast_error_only :: "rty \<Rightarrow> any_wrapper_ref \<Rightarrow> unit option" where
  "cast_error_only E2 a = (if wrapper_e a \<noteq> WrapperErrorTypeOnlyT E2 then None else Some ())"

definition cast_ret_and_error :: "rty \<Rightarrow> rty \<Rightarrow> any_wrapper_ref \<Rightarrow> unit option" where
  "cast_ret_and_error R2 E2 a =
     (if wrapper_re a \<noteq> WrapperReturnTypeAndErrorT R2 E2 then None else Some ())"

subsection \<open>The public \<open>Receiver\<close> handle (lines 697--958)\<close>

record 'u handle =
  h_types :: wrapper_types
  h_wrapper :: "'u wrapper"
  h_strategy :: "'u strategy"

text \<open>
  \<open>Receiver::send::<M2>\<close> (lines 738--762): \<open>typed()\<close> is always \<open>Some\<close> for a
  \<open>ReceiverWrapper\<close>, so the message goes through \<open>cast_send_typed::<M2>().unwrap()\<close>
  to the strategy's typed \<open>send\<close>, its \<open>SendError\<close> converted with \<open>Into\<close>;
  afterwards the permit is fused, whatever the result.
\<close>

definition receiver_send ::
  "rty \<Rightarrow> mid \<Rightarrow> 'u \<Rightarrow> permit \<Rightarrow> 'u handle \<Rightarrow>
   ((unit, ('u, 'u) error) result \<times> permit \<times> 'u handle) may_panic" where
  "receiver_send M2 m msg p h =
     (case option_unwrap (cast_send_typed M2 (any_receiver_new (h_types h))) of
        Inl pn \<Rightarrow> Inl pn
      | Inr _ \<Rightarrow>
          (let (res, h') = (case strategy_send m msg (h_strategy h) of
                              Err se \<Rightarrow> (Err (SendError se), h)
                            | Ok st' \<Rightarrow> (Ok (), h\<lparr>h_strategy := st'\<rparr>))
           in Inr (res, p\<lparr>fuse := True\<rparr>, h')))"

text \<open>\<open>Receiver::force_send\<close> (lines 764--785): the same path, no permit.\<close>

definition force_send :: "rty \<Rightarrow> mid \<Rightarrow> 'u \<Rightarrow> 'u handle \<Rightarrow> ((unit, ('u, 'u) error) result \<times> 'u handle) may_panic" where
  "force_send M2 m msg h =
     (case option_unwrap (cast_send_typed M2 (any_receiver_new (h_types h))) of
        Inl pn \<Rightarrow> Inl pn
      | Inr _ \<Rightarrow>
          (case strategy_send m msg (h_strategy h) of
             Err se \<Rightarrow> Inr (Err (SendError se), h)
           | Ok st' \<Rightarrow> Inr (Ok (), h\<lparr>h_strategy := st'\<rparr>)))"

text \<open>\<open>Receiver::send_boxed\<close> (lines 787--798).\<close>

definition receiver_send_boxed ::
  "mid \<Rightarrow> 'u dyn \<Rightarrow> permit \<Rightarrow> 'u handle \<Rightarrow> (unit, ('u dyn, 'u) error) result \<times> permit \<times> 'u handle" where
  "receiver_send_boxed m b p h =
     (case send_boxed (h_types h) m b (h_strategy h) of
        Err e \<Rightarrow> (Err e, p\<lparr>fuse := True\<rparr>, h)
      | Ok st' \<Rightarrow> (Ok (), p\<lparr>fuse := True\<rparr>, h\<lparr>h_strategy := st'\<rparr>))"

text \<open>\<open>Receiver::init\<close> (lines 905--912): sends \<open>Init\<close> unless \<open>init_sent\<close> is set.\<close>

definition receiver_init :: "'u handle \<Rightarrow> (unit, (action, 'u) error) result \<times> 'u handle" where
  "receiver_init h =
     (if \<not> init_sent (rw_context (h_wrapper h))
      then (case send_action Init (h_strategy h) of
              Err e \<Rightarrow> (Err e, h)
            | Ok st' \<Rightarrow> (Ok (), h\<lparr>h_strategy := st'\<rparr>))
      else (Ok (), h))"

text \<open>
  \<open>Receiver::close\<close>, \<open>sync\<close> and \<open>flush\<close> (lines 922--953): subscribe to the notify,
  send the action, and await the subscription if the action was accepted. As one
  atomic operation on the handle, the model returns the snapshot of the future that is
  awaited, or \<open>None\<close> when the call returns at once (after a warning); the three
  statements as separate steps interleaved with the event loop are the caller of
  theory \<open>Lifecycle_Calls\<close>.
\<close>

definition lifecycle_call ::
  "(receiver_context \<Rightarrow> notify) \<Rightarrow> action \<Rightarrow> 'u handle \<Rightarrow> nat option \<times> 'u handle" where
  "lifecycle_call sel a h =
     (let snap = notified (sel (rw_context (h_wrapper h)))
      in case send_action a (h_strategy h) of
           Err _ \<Rightarrow> (None, h)
         | Ok st' \<Rightarrow> (Some snap, h\<lparr>h_strategy := st'\<rparr>))"

definition receiver_close :: "'u handle \<Rightarrow> nat option \<times> 'u handle" where
  "receiver_close = lifecycle_call closed Close"

definition receiver_sync :: "'u handle \<Rightarrow> nat option \<times> 'u handle" where
  "receiver_sync = lifecycle_call synchronized Sync"

definition receiver_flush :: "'u handle \<Rightarrow> nat option \<times> 'u handle" where
  "receiver_flush = lifecycle_call flushed Flush"

text \<open>An awaited lifecycle future has completed once its notify fired after the snapshot.\<close>

definition completed :: "nat \<Rightarrow> notify \<Rightarrow> bool" where
  "completed snap n \<longleftrightarrow> snap < n_calls n"

text \<open>A handle on the example wrapper with a one-slot strategy queue, for witnesses.\<close>

definition example_types :: wrapper_types where
  "example_types = \<lparr>msg_ty = RTy ''f32'' [], resp_ty = RTy ''()'' [], err_ty = RTy ''Error'' []\<rparr>"

definition example_handle :: "int handle" where
  "example_handle =
     \<lparr>h_types = example_types, h_wrapper = example_wrapper,
      h_strategy = \<lparr>st_queue = [], st_cap = 1, st_closed = False, st_actions = []\<rparr>\<rparr>"

subsection \<open>Properties of the wrapper and the handle\<close>

text \<open>
  \<open>accept\<close> agrees with \<open>iter_types\<close>: a wrapper accepts a message tag with
  optional response and error tags exactly when one of the triples it advertises has
  that message tag and, where given, that response and error tag.
\<close>

theorem accept_iff_advertised:
  "accept T msg resp err \<longleftrightarrow>
   (\<exists>(m', r', e') \<in> set (iter_types T). msg = m' \<and> (resp = None \<or> resp = Some r') \<and> (err = None \<or> err = Some e'))"
  by (cases resp; cases err) (auto simp: accept_def iter_types_def)

theorem accept_iff_advertised_witness:
  "accept example_types ''f32'' (Some ''()'') None \<and> \<not> accept example_types ''f32'' (Some ''u8'') None"
  using accept_iff_advertised [of example_types "''f32''" "Some ''()''" None]
        accept_iff_advertised [of example_types "''f32''" "Some ''u8''" None]
  by (simp add: iter_types_def example_types_def)

text \<open>
  The safe-dynamic-cast views succeed exactly for the instantiation they were
  built for: \<open>cast_send_typed::<M2>\<close> only for \<open>M2 = M\<close>, and the three
  \<open>AnyWrapperRef\<close> casts only for the wrapper's \<open>R\<close>, \<open>E\<close> and \<open>(R, E)\<close>.
\<close>

theorem casts_match_instantiation:
  "(cast_send_typed M2 (any_receiver_new T) \<noteq> None \<longleftrightarrow> M2 = msg_ty T) \<and>
   (cast_ret_only R2 (any_wrapper_ref_new T) \<noteq> None \<longleftrightarrow> R2 = resp_ty T) \<and>
   (cast_error_only E2 (any_wrapper_ref_new T) \<noteq> None \<longleftrightarrow> E2 = err_ty T) \<and>
   (cast_ret_and_error R2 E2 (any_wrapper_ref_new T) \<noteq> None \<longleftrightarrow> R2 = resp_ty T \<and> E2 = err_ty T)"
  by (auto simp: cast_send_typed_def any_receiver_new_def cast_ret_only_def cast_error_only_def
      cast_ret_and_error_def any_wrapper_ref_new_def)

text \<open>
  C25: \<open>Receiver::send::<M2>\<close> on a receiver of another message type panics on
  \<open>cast_send_typed::<M2>().unwrap()\<close> instead of returning an error.
\<close>

theorem send_wrong_type_panics:
  assumes "M2 \<noteq> msg_ty (h_types h)"
  shows "\<exists>pn. receiver_send M2 m msg p h = Inl pn"
  using assms by (simp add: receiver_send_def option_unwrap_def cast_send_typed_def any_receiver_new_def)

theorem send_wrong_type_panics_witness:
  "\<exists>pn. receiver_send (RTy ''u16'' []) 0 5 \<lparr>fuse = False\<rparr> example_handle = Inl pn"
  by (rule send_wrong_type_panics) (simp add: example_handle_def example_types_def)

text \<open>
  C19: on a full, open strategy queue the typed path \<open>Receiver::send\<close> reports
  \<open>SendError::Full\<close>, but the erased path \<open>Receiver::send_boxed\<close> reports the same
  refusal as \<open>SendError::Closed\<close>; both fuse the permit.
\<close>

theorem full_queue_typed_vs_boxed:
  assumes "\<not> st_closed (h_strategy h)" and "st_cap (h_strategy h) \<le> length (st_queue (h_strategy h))"
  shows "receiver_send (msg_ty (h_types h)) m msg p h = Inr (Err (SendError (Full msg)), p\<lparr>fuse := True\<rparr>, h) \<and>
         receiver_send_boxed m (into_boxed (msg_ty (h_types h)) msg) p h =
           (Err (SendError (Closed (into_boxed (msg_ty (h_types h)) msg))), p\<lparr>fuse := True\<rparr>, h)"
  using assms
  by (simp add: receiver_send_def receiver_send_boxed_def send_boxed_def strategy_send_def
      option_unwrap_def cast_send_typed_def any_receiver_new_def)

theorem full_queue_typed_vs_boxed_witness:
  "receiver_send (RTy ''f32'' []) 1 7 \<lparr>fuse = False\<rparr>
     (example_handle\<lparr>h_strategy := \<lparr>st_queue = [(0, 1)], st_cap = 1, st_closed = False, st_actions = []\<rparr>\<rparr>)
   = Inr (Err (SendError (Full 7)), \<lparr>fuse = True\<rparr>,
          example_handle\<lparr>h_strategy := \<lparr>st_queue = [(0, 1)], st_cap = 1, st_closed = False, st_actions = []\<rparr>\<rparr>)"
  using full_queue_typed_vs_boxed [of "example_handle\<lparr>h_strategy := \<lparr>st_queue = [(0, 1)], st_cap = 1, st_closed = False, st_actions = []\<rparr>\<rparr>" 1 7 "\<lparr>fuse = False\<rparr>"]
  by (simp add: example_handle_def example_types_def)

text \<open>
  C16: nothing sets \<open>init_sent\<close>, so \<open>Receiver::init\<close> is not idempotent: called
  twice on an open receiver it sends \<open>Action::Init\<close> twice.
\<close>

theorem init_sends_init_every_time:
  assumes "\<not> st_closed (h_strategy h)" and "\<not> init_sent (rw_context (h_wrapper h))"
  shows "st_actions (h_strategy (snd (receiver_init (snd (receiver_init h))))) =
         st_actions (h_strategy h) @ [Init, Init]"
  using assms by (simp add: receiver_init_def send_action_def strategy_send_action_def)

theorem init_sends_init_every_time_witness:
  "st_actions (h_strategy (snd (receiver_init (snd (receiver_init example_handle))))) = [Init, Init]"
  using init_sends_init_every_time [of example_handle]
  by (simp add: example_handle_def example_wrapper_def receiver_context_new_def)

lemma handle_event_calls_mono:
  assumes "handle_event R E ev w = Inr (c, w')"
  shows "n_calls (closed (rw_context w)) \<le> n_calls (closed (rw_context w')) \<and>
         n_calls (flushed (rw_context w)) \<le> n_calls (flushed (rw_context w')) \<and>
         n_calls (synchronized (rw_context w)) \<le> n_calls (synchronized (rw_context w')) \<and>
         (ev = Exited \<longrightarrow> n_calls (closed (rw_context w)) < n_calls (closed (rw_context w'))) \<and>
         (ev = Flushed \<longrightarrow> n_calls (flushed (rw_context w)) < n_calls (flushed (rw_context w'))) \<and>
         ((\<exists>res. ev = Synchronized res) \<longrightarrow> n_calls (synchronized (rw_context w)) < n_calls (synchronized (rw_context w')))"
  using assms
  by (cases ev)
     (auto simp: update_context_def notify_waiters_def Let_def dest!: wrapper_response_context split: sum.splits)

lemma handle_event_Break: "handle_event R E ev w = Inr (Break, w') \<Longrightarrow> ev = Exited"
  by (cases ev) (auto simp: Let_def split: sum.splits)

end
