(* ===== verification/Lifecycle_Calls.thy ===== *)
theory Lifecycle_Calls
  imports Wrapper
begin

text \<open>
  The lifecycle calls \<open>Receiver::close\<close>, \<open>sync\<close> and \<open>flush\<close> (receiver.rs lines
  922--953) as a caller that runs interleaved with the strategy and the event-poll loop.
  Each call is three statements: take the notify subscription (\<open>notified()\<close>), send
  the action, and await the subscription when the send succeeded (warn and return
  otherwise). The strategy answers the actions it received in order, with the event the
  relay contract prescribes (spec section 6: \<open>Ready\<close>, \<open>Flushed\<close>,
  \<open>Synchronized\<close>, \<open>Exited\<close>), and the loop handles the events with
  \<open>handle_event\<close> until it breaks. Between any two statements of the caller the other
  two may take any number of steps.
\<close>

datatype lc_kind = LcClose | LcSync | LcFlush

fun lc_sel :: "lc_kind \<Rightarrow> receiver_context \<Rightarrow> notify" where
  "lc_sel LcClose = closed"
| "lc_sel LcSync = synchronized"
| "lc_sel LcFlush = flushed"

fun lc_action :: "lc_kind \<Rightarrow> action" where
  "lc_action LcClose = Close"
| "lc_action LcSync = Sync"
| "lc_action LcFlush = Flush"

text \<open>The strategy's answer to an action (spec section 6); \<open>Stats\<close> is not modelled.\<close>

fun action_reply :: "action \<Rightarrow> 'u event option" where
  "action_reply Init = Some Ready"
| "action_reply Flush = Some Flushed"
| "action_reply Sync = Some (Synchronized (Ok ()))"
| "action_reply Close = Some Exited"
| "action_reply StatsAction = None"

text \<open>
  The caller's position: before \<open>notified()\<close>, before \<open>send_action\<close>, at
  \<open>notify.await\<close>, returned. \<open>lc_snap\<close> is the local \<open>notify\<close> future (its snapshot).
\<close>

datatype lc_pc = LcEntry | LcSending | LcAwaiting | LcReturned

record 'u lc_state =
  lc_pc :: lc_pc
  lc_snap :: "nat option"
  lc_warned :: bool
  lc_handle :: "'u handle"
  lc_events :: "'u event list"
  lc_exited :: bool

abbreviation lc_notify :: "lc_kind \<Rightarrow> 'u lc_state \<Rightarrow> notify" where
  "lc_notify k s \<equiv> lc_sel k (rw_context (h_wrapper (lc_handle s)))"

abbreviation lc_strategy :: "'u lc_state \<Rightarrow> 'u strategy" where
  "lc_strategy s \<equiv> h_strategy (lc_handle s)"

inductive lc_step :: "rty \<Rightarrow> rty \<Rightarrow> lc_kind \<Rightarrow> 'u lc_state \<Rightarrow> 'u lc_state \<Rightarrow> bool"
  for R E k where
  lc_subscribe: "lc_pc s = LcEntry \<Longrightarrow>
    lc_step R E k s (s\<lparr>lc_pc := LcSending, lc_snap := Some (notified (lc_notify k s))\<rparr>)"
| lc_send_ok: "lc_pc s = LcSending \<Longrightarrow> send_action (lc_action k) (lc_strategy s) = Ok st' \<Longrightarrow>
    lc_step R E k s (s\<lparr>lc_pc := LcAwaiting, lc_handle := (lc_handle s)\<lparr>h_strategy := st'\<rparr>\<rparr>)"
| lc_send_err: "lc_pc s = LcSending \<Longrightarrow> send_action (lc_action k) (lc_strategy s) = Err e \<Longrightarrow>
    lc_step R E k s (s\<lparr>lc_pc := LcReturned, lc_warned := True\<rparr>)"
| lc_wake: "lc_pc s = LcAwaiting \<Longrightarrow> lc_snap s = Some snap \<Longrightarrow> completed snap (lc_notify k s) \<Longrightarrow>
    lc_step R E k s (s\<lparr>lc_pc := LcReturned\<rparr>)"
| lc_answer: "st_actions (lc_strategy s) = a # as \<Longrightarrow> action_reply a = Some ev \<Longrightarrow>
    lc_step R E k s (s\<lparr>lc_handle := (lc_handle s)\<lparr>h_strategy := (lc_strategy s)\<lparr>st_actions := as\<rparr>\<rparr>,
                       lc_events := lc_events s @ [ev]\<rparr>)"
| lc_poll: "\<not> lc_exited s \<Longrightarrow> lc_events s = ev # evs \<Longrightarrow>
    handle_event R E ev (h_wrapper (lc_handle s)) = Inr (ctl, w') \<Longrightarrow>
    lc_step R E k s (s\<lparr>lc_handle := (lc_handle s)\<lparr>h_wrapper := w'\<rparr>, lc_events := evs,
                       lc_exited := (ctl = Break)\<rparr>)"

text \<open>
  Events the loop handles without breaking or panicking, and actions the strategy answers
  with one of them: what may already be pending when the call starts.
\<close>

fun quiet_event :: "'u event \<Rightarrow> bool" where
  "quiet_event Ready = True"
| "quiet_event Pause = True"
| "quiet_event (InitFailed _) = True"
| "quiet_event Flushed = True"
| "quiet_event (Synchronized _) = True"
| "quiet_event _ = False"

fun quiet_action :: "action \<Rightarrow> bool" where
  "quiet_action Init = True"
| "quiet_action Flush = True"
| "quiet_action Sync = True"
| "quiet_action _ = False"

definition lc_start_ok :: "'u lc_state \<Rightarrow> bool" where
  "lc_start_ok s \<longleftrightarrow> lc_pc s = LcEntry \<and> \<not> lc_warned s \<and> \<not> lc_exited s \<and>
     \<not> st_closed (lc_strategy s) \<and> list_all quiet_action (st_actions (lc_strategy s)) \<and>
     list_all quiet_event (lc_events s)"

text \<open>A call of \<open>close\<close> on the example handle, with a \<open>Ready\<close> event still unhandled.\<close>

definition example_lc_start :: "int lc_state" where
  "example_lc_start =
     \<lparr>lc_pc = LcEntry, lc_snap = None, lc_warned = False, lc_handle = example_handle,
      lc_events = [Ready], lc_exited = False\<rparr>"

subsection \<open>The invariant of a call started on an open receiver\<close>

definition lc_reply :: "lc_kind \<Rightarrow> 'u event" where
  "lc_reply k = the (action_reply (lc_action k))"

definition lc_open :: "'u lc_state \<Rightarrow> bool" where
  "lc_open s \<longleftrightarrow> \<not> lc_exited s \<and> \<not> st_closed (lc_strategy s) \<and>
     list_all quiet_action (st_actions (lc_strategy s)) \<and> list_all quiet_event (lc_events s)"

text \<open>The answer to the call's action is still to come: queued as an event, or as an action.\<close>

definition lc_reply_pending :: "lc_kind \<Rightarrow> 'u lc_state \<Rightarrow> bool" where
  "lc_reply_pending k s \<longleftrightarrow>
     (\<exists>pre post. lc_events s = pre @ lc_reply k # post \<and> list_all quiet_event pre) \<or>
     (list_all quiet_event (lc_events s) \<and>
      (\<exists>pre post. st_actions (lc_strategy s) = pre @ lc_action k # post \<and> list_all quiet_action pre))"

definition lc_inv :: "lc_kind \<Rightarrow> 'u lc_state \<Rightarrow> bool" where
  "lc_inv k s \<longleftrightarrow> \<not> lc_warned s \<and>
     (case lc_pc s of
        LcEntry \<Rightarrow> lc_open s
      | LcSending \<Rightarrow> lc_open s \<and> (\<exists>n. lc_snap s = Some n \<and> n \<le> n_calls (lc_notify k s))
      | LcAwaiting \<Rightarrow> (\<exists>n. lc_snap s = Some n \<and>
          (completed n (lc_notify k s) \<or>
           (\<not> lc_exited s \<and> n \<le> n_calls (lc_notify k s) \<and> lc_reply_pending k s)))
      | LcReturned \<Rightarrow> True)"

lemma action_reply_lc_action [simp]: "action_reply (lc_action k) = Some (lc_reply k)"
  by (cases k) (simp_all add: lc_reply_def)

lemma quiet_action_reply:
  "quiet_action a \<Longrightarrow> action_reply a = Some ev \<Longrightarrow> quiet_event ev"
  by (cases a) auto

lemma quiet_event_handled:
  "quiet_event ev \<Longrightarrow> \<exists>w'. handle_event R E ev w = Inr (Continue, w')"
  by (cases ev) auto

lemma quiet_event_Continue:
  "quiet_event ev \<Longrightarrow> handle_event R E ev w = Inr (c, w') \<Longrightarrow> c = Continue"
  by (cases ev) auto

lemma lc_sel_calls_mono:
  "handle_event R E ev w = Inr (c, w') \<Longrightarrow>
   n_calls (lc_sel k (rw_context w)) \<le> n_calls (lc_sel k (rw_context w'))"
  by (cases k) (auto dest: handle_event_calls_mono)

lemma lc_reply_fires:
  "handle_event R E (lc_reply k) w = Inr (c, w') \<Longrightarrow>
   n_calls (lc_sel k (rw_context w)) < n_calls (lc_sel k (rw_context w'))"
  by (cases k) (auto simp: lc_reply_def update_context_def notify_waiters_def)

lemma lc_reply_handled: "\<exists>c w'. handle_event R E (lc_reply k) w = Inr (c, w')"
  by (cases k) (auto simp: lc_reply_def)

lemma lc_send_action_open:
  "\<not> st_closed st \<Longrightarrow>
   send_action a st = Ok (st\<lparr>st_actions := st_actions st @ [a], st_closed := (a = Close)\<rparr>)"
  by (simp add: send_action_def strategy_send_action_def)

lemma completed_mono: "completed n x \<Longrightarrow> n_calls x \<le> n_calls y \<Longrightarrow> completed n y"
  by (simp add: completed_def)

lemma lc_inv_start: "lc_start_ok s \<Longrightarrow> lc_inv k s"
  by (simp add: lc_start_ok_def lc_inv_def lc_open_def)

lemma lc_reply_pending_poll:
  assumes "lc_reply_pending k s" and "lc_events s = ev # evs"
    and "handle_event R E ev w = Inr (c, w')"
    and "n \<le> n_calls (lc_sel k (rw_context w))"
    and "st_actions (h_strategy hh) = st_actions (lc_strategy s)"
  shows "completed n (lc_sel k (rw_context w')) \<or>
    (c = Continue \<and> lc_reply_pending k (s\<lparr>lc_handle := hh, lc_events := evs\<rparr>))"
  using assms(1) [unfolded lc_reply_pending_def]
proof (elim disjE exE conjE)
  fix pre post
  assume e: "lc_events s = pre @ lc_reply k # post" and q: "list_all quiet_event pre"
  show ?thesis
  proof (cases pre)
    case Nil
    with e assms(2) have "ev = lc_reply k" by simp
    with lc_reply_fires [of R E k w c w'] assms(3,4) show ?thesis
      by (simp add: completed_def)
  next
    case (Cons x pre')
    with e assms(2) q have "ev = x" "evs = pre' @ lc_reply k # post" "quiet_event x" "list_all quiet_event pre'"
      by auto
    with quiet_event_Continue [of ev R E w c w'] assms(3) show ?thesis
      by (auto simp: lc_reply_pending_def)
  qed
next
  fix pre post
  assume "list_all quiet_event (lc_events s)"
    and "st_actions (lc_strategy s) = pre @ lc_action k # post" "list_all quiet_action pre"
  with assms(2,3,5) quiet_event_Continue [of ev R E w c w'] show ?thesis
    by (auto simp: lc_reply_pending_def)
qed

lemma lc_reply_pending_answer:
  assumes "lc_reply_pending k s" and "st_actions (lc_strategy s) = a # as"
    and "action_reply a = Some ev"
  shows "lc_reply_pending k (s\<lparr>lc_handle := (lc_handle s)\<lparr>h_strategy := (lc_strategy s)\<lparr>st_actions := as\<rparr>\<rparr>,
                               lc_events := lc_events s @ [ev]\<rparr>)"
  using assms(1) [unfolded lc_reply_pending_def]
proof (elim disjE exE conjE)
  fix pre post
  assume "lc_events s = pre @ lc_reply k # post" and "list_all quiet_event pre"
  then show ?thesis by (auto simp: lc_reply_pending_def)
next
  fix pre post
  assume q: "list_all quiet_event (lc_events s)"
    and a: "st_actions (lc_strategy s) = pre @ lc_action k # post" and qa: "list_all quiet_action pre"
  show ?thesis
  proof (cases pre)
    case Nil
    with a assms(2,3) have "ev = lc_reply k" by auto
    with q show ?thesis by (auto simp: lc_reply_pending_def)
  next
    case (Cons x pre')
    with a assms(2) qa have "x = a" "as = pre' @ lc_action k # post" "quiet_action a" "list_all quiet_action pre'"
      by auto
    with q quiet_action_reply [OF _ assms(3)] show ?thesis by (auto simp: lc_reply_pending_def)
  qed
qed

lemma lc_open_answer:
  "lc_open s \<Longrightarrow> st_actions (lc_strategy s) = a # as \<Longrightarrow> action_reply a = Some ev \<Longrightarrow>
   lc_open (s\<lparr>lc_handle := (lc_handle s)\<lparr>h_strategy := (lc_strategy s)\<lparr>st_actions := as\<rparr>\<rparr>,
              lc_events := lc_events s @ [ev]\<rparr>)"
  by (auto simp: lc_open_def dest: quiet_action_reply)

lemma lc_open_poll:
  "lc_open s \<Longrightarrow> lc_events s = ev # evs \<Longrightarrow> handle_event R E ev (h_wrapper (lc_handle s)) = Inr (ctl, w') \<Longrightarrow>
   ctl = Continue \<and>
   lc_open (s\<lparr>lc_handle := (lc_handle s)\<lparr>h_wrapper := w'\<rparr>, lc_events := evs, lc_exited := (ctl = Break)\<rparr>)"
  by (auto simp: lc_open_def dest: quiet_event_Continue)

lemma lc_inv_step:
  assumes "lc_step R E k s t" and "lc_inv k s"
  shows "lc_inv k t"
  using assms(1)
proof cases
  case lc_subscribe
  with assms(2) show ?thesis by (simp add: lc_inv_def lc_open_def notified_def)
next
  case (lc_send_ok st')
  with assms(2) have o: "lc_open s" and n: "\<exists>n. lc_snap s = Some n \<and> n \<le> n_calls (lc_notify k s)"
    by (auto simp: lc_inv_def)
  with lc_send_ok lc_send_action_open [of "lc_strategy s" "lc_action k"]
  have "st_actions st' = st_actions (lc_strategy s) @ [lc_action k]" by (simp add: lc_open_def)
  with o n lc_send_ok assms(2) show ?thesis
    by (fastforce simp: lc_inv_def lc_open_def lc_reply_pending_def)
next
  case (lc_send_err e)
  with assms(2) lc_send_action_open [of "lc_strategy s" "lc_action k"] show ?thesis
    by (simp add: lc_inv_def lc_open_def)
next
  case (lc_wake snap)
  with assms(2) show ?thesis by (simp add: lc_inv_def)
next
  case (lc_answer a as ev)
  with assms(2) lc_open_answer [OF _ lc_answer(2,3)] lc_reply_pending_answer [OF _ lc_answer(2,3)]
  show ?thesis by (auto simp: lc_inv_def split: lc_pc.splits)
next
  case (lc_poll ev evs ctl w')
  note mono = lc_sel_calls_mono [OF lc_poll(4), of k]
  show ?thesis
  proof (cases "lc_pc s")
    case LcAwaiting
    with assms(2) obtain n where sn: "lc_snap s = Some n"
      and c: "completed n (lc_notify k s) \<or>
              (\<not> lc_exited s \<and> n \<le> n_calls (lc_notify k s) \<and> lc_reply_pending k s)"
      by (auto simp: lc_inv_def)
    from c show ?thesis
    proof
      assume "completed n (lc_notify k s)"
      with completed_mono [OF _ mono] assms(2) LcAwaiting sn lc_poll(1) show ?thesis
        by (simp add: lc_inv_def)
    next
      assume p: "\<not> lc_exited s \<and> n \<le> n_calls (lc_notify k s) \<and> lc_reply_pending k s"
      with lc_reply_pending_poll [where n=n and hh="(lc_handle s)\<lparr>h_wrapper := w'\<rparr>", OF _ lc_poll(3,4)]
      have "completed n (lc_sel k (rw_context w')) \<or>
            (ctl = Continue \<and> lc_reply_pending k (s\<lparr>lc_handle := (lc_handle s)\<lparr>h_wrapper := w'\<rparr>, lc_events := evs\<rparr>))"
        by simp
      with p mono assms(2) LcAwaiting sn lc_poll(1) show ?thesis
        by (auto simp: lc_inv_def lc_reply_pending_def)
    qed
  next
    case LcEntry
    with assms(2) lc_open_poll [OF _ lc_poll(3,4)] lc_poll(1) show ?thesis by (auto simp: lc_inv_def)
  next
    case LcSending
    with assms(2) lc_open_poll [OF _ lc_poll(3,4)] lc_poll(1) mono show ?thesis
      by (auto simp: lc_inv_def)
  next
    case LcReturned
    with assms(2) lc_poll(1) show ?thesis by (simp add: lc_inv_def)
  qed
qed

lemma lc_inv_reach: "(lc_step R E k)\<^sup>*\<^sup>* s t \<Longrightarrow> lc_inv k s \<Longrightarrow> lc_inv k t"
  by (induction rule: rtranclp_induct) (auto intro: lc_inv_step)

subsection \<open>Progress: the awaited event is always still to come\<close>

lemma lc_poll_quiet:
  "list_all quiet_event pre \<Longrightarrow> lc_events s = pre @ post \<Longrightarrow> \<not> lc_exited s \<Longrightarrow>
   \<exists>t. (lc_step R E k)\<^sup>*\<^sup>* s t \<and> lc_events t = post \<and> \<not> lc_exited t \<and> lc_pc t = lc_pc s \<and>
       lc_snap t = lc_snap s \<and> lc_warned t = lc_warned s \<and> lc_strategy t = lc_strategy s \<and>
       n_calls (lc_notify k s) \<le> n_calls (lc_notify k t)"
proof (induction pre arbitrary: s)
  case Nil
  then show ?case by (intro exI [of _ s]) simp
next
  case (Cons x pre)
  from Cons.prems(1) quiet_event_handled [of x R E "h_wrapper (lc_handle s)"]
  obtain w' where h: "handle_event R E x (h_wrapper (lc_handle s)) = Inr (Continue, w')" by auto
  define s1 where "s1 = s\<lparr>lc_handle := (lc_handle s)\<lparr>h_wrapper := w'\<rparr>, lc_events := pre @ post,
                          lc_exited := (Continue = Break)\<rparr>"
  have st: "lc_step R E k s s1"
    unfolding s1_def by (rule lc_poll [OF Cons.prems(3)]) (use Cons.prems(2) h in simp_all)
  from Cons.IH [of s1] Cons.prems(1) obtain t where
    r: "(lc_step R E k)\<^sup>*\<^sup>* s1 t" and p: "lc_events t = post \<and> \<not> lc_exited t \<and> lc_pc t = lc_pc s1 \<and>
     lc_snap t = lc_snap s1 \<and> lc_warned t = lc_warned s1 \<and> lc_strategy t = lc_strategy s1"
    and c: "n_calls (lc_notify k s1) \<le> n_calls (lc_notify k t)"
    by (auto simp: s1_def)
  from c lc_sel_calls_mono [OF h, of k] have "n_calls (lc_notify k s) \<le> n_calls (lc_notify k t)"
    by (simp add: s1_def)
  with converse_rtranclp_into_rtranclp [OF st r] p show ?case
    by (auto simp: s1_def)
qed

lemma lc_answer_quiet:
  "list_all quiet_action pre \<Longrightarrow> st_actions (lc_strategy s) = pre @ post \<Longrightarrow>
   list_all quiet_event (lc_events s) \<Longrightarrow>
   \<exists>t. (lc_step R E k)\<^sup>*\<^sup>* s t \<and> st_actions (lc_strategy t) = post \<and> list_all quiet_event (lc_events t) \<and>
       lc_pc t = lc_pc s \<and> lc_snap t = lc_snap s \<and> lc_warned t = lc_warned s \<and>
       lc_exited t = lc_exited s \<and> h_wrapper (lc_handle t) = h_wrapper (lc_handle s)"
proof (induction pre arbitrary: s)
  case Nil
  then show ?case by (intro exI [of _ s]) simp
next
  case (Cons a pre)
  from Cons.prems(1) obtain ev :: "'a event" where r: "action_reply a = Some ev" and q: "quiet_event ev"
    by (cases a) auto
  define s1 where "s1 = s\<lparr>lc_handle := (lc_handle s)\<lparr>h_strategy := (lc_strategy s)\<lparr>st_actions := pre @ post\<rparr>\<rparr>,
                          lc_events := lc_events s @ [ev]\<rparr>"
  have st: "lc_step R E k s s1"
    unfolding s1_def by (rule lc_answer) (use Cons.prems(2) r in simp_all)
  from Cons.IH [of s1] Cons.prems(1,3) q obtain t where
    r: "(lc_step R E k)\<^sup>*\<^sup>* s1 t" and p: "st_actions (lc_strategy t) = post \<and> list_all quiet_event (lc_events t) \<and>
     lc_pc t = lc_pc s1 \<and> lc_snap t = lc_snap s1 \<and> lc_warned t = lc_warned s1 \<and>
     lc_exited t = lc_exited s1 \<and> h_wrapper (lc_handle t) = h_wrapper (lc_handle s1)"
    by (auto simp: s1_def)
  with converse_rtranclp_into_rtranclp [OF st r] show ?case by (auto simp: s1_def)
qed

lemma lc_wake_returns:
  assumes "lc_pc s = LcAwaiting" and "lc_snap s = Some n" and "completed n (lc_notify k s)"
    and "\<not> lc_warned s"
  shows "\<exists>t. (lc_step R E k)\<^sup>*\<^sup>* s t \<and> lc_pc t = LcReturned \<and> \<not> lc_warned t"
proof -
  have "lc_step R E k s (s\<lparr>lc_pc := LcReturned\<rparr>)" by (rule lc_wake [OF assms(1-3)])
  with assms(4) show ?thesis by (intro exI [of _ "s\<lparr>lc_pc := LcReturned\<rparr>"]) simp
qed

lemma lc_reply_queued_returns:
  assumes "lc_pc s = LcAwaiting" and "lc_snap s = Some n" and "\<not> lc_warned s" and "\<not> lc_exited s"
    and "n \<le> n_calls (lc_notify k s)"
    and "lc_events s = pre @ lc_reply k # post" and "list_all quiet_event pre"
  shows "\<exists>t. (lc_step R E k)\<^sup>*\<^sup>* s t \<and> lc_pc t = LcReturned \<and> \<not> lc_warned t"
proof -
  from lc_poll_quiet [OF assms(7,6,4), of R E k] obtain s1 where
    r1: "(lc_step R E k)\<^sup>*\<^sup>* s s1" and e1: "lc_events s1 = lc_reply k # post" and x1: "\<not> lc_exited s1"
    and q1: "lc_pc s1 = lc_pc s \<and> lc_snap s1 = lc_snap s \<and> lc_warned s1 = lc_warned s \<and>
             lc_strategy s1 = lc_strategy s"
    and m1: "n_calls (lc_notify k s) \<le> n_calls (lc_notify k s1)"
    by blast
  from q1 assms(1-3) have p1: "lc_pc s1 = LcAwaiting" "lc_snap s1 = Some n" "\<not> lc_warned s1" by simp_all
  from m1 assms(5) have c1: "n \<le> n_calls (lc_notify k s1)" by linarith
  from lc_reply_handled obtain c w' where h: "handle_event R E (lc_reply k) (h_wrapper (lc_handle s1)) = Inr (c, w')"
    by blast
  define s2 where "s2 = s1\<lparr>lc_handle := (lc_handle s1)\<lparr>h_wrapper := w'\<rparr>, lc_events := post,
                           lc_exited := (c = Break)\<rparr>"
  have st: "lc_step R E k s1 s2" unfolding s2_def by (rule lc_poll [OF x1 e1 h])
  from lc_reply_fires [OF h] c1 have comp: "completed n (lc_notify k s2)"
    by (simp add: s2_def completed_def)
  from p1 have p2: "lc_pc s2 = LcAwaiting" "lc_snap s2 = Some n" "\<not> lc_warned s2"
    by (simp_all add: s2_def)
  from lc_wake_returns [OF p2(1,2) comp p2(3), of R E] obtain t where
    r3: "(lc_step R E k)\<^sup>*\<^sup>* s2 t" and t: "lc_pc t = LcReturned \<and> \<not> lc_warned t"
    by blast
  from rtranclp_trans [OF rtranclp.rtrancl_into_rtrancl [OF r1 st] r3] t show ?thesis by blast
qed

lemma lc_awaiting_returns:
  assumes "lc_inv k s" and "lc_pc s = LcAwaiting"
  shows "\<exists>t. (lc_step R E k)\<^sup>*\<^sup>* s t \<and> lc_pc t = LcReturned \<and> \<not> lc_warned t"
proof -
  from assms obtain n where sn: "lc_snap s = Some n" and nw: "\<not> lc_warned s"
    and c: "completed n (lc_notify k s) \<or>
            (\<not> lc_exited s \<and> n \<le> n_calls (lc_notify k s) \<and> lc_reply_pending k s)"
    by (auto simp: lc_inv_def)
  from c show ?thesis
  proof (elim disjE conjE)
    assume "completed n (lc_notify k s)"
    from lc_wake_returns [OF assms(2) sn this nw] show ?thesis .
  next
    assume x: "\<not> lc_exited s" and le: "n \<le> n_calls (lc_notify k s)" and "lc_reply_pending k s"
    then consider pre post where "lc_events s = pre @ lc_reply k # post" "list_all quiet_event pre"
      | pre post where "list_all quiet_event (lc_events s)"
          "st_actions (lc_strategy s) = pre @ lc_action k # post" "list_all quiet_action pre"
      by (auto simp: lc_reply_pending_def)
    then show ?thesis
    proof cases
      case 1
      from lc_reply_queued_returns [OF assms(2) sn nw x le 1] show ?thesis .
    next
      case (2 pre post)
      from lc_answer_quiet [OF 2(3,2,1), of R E k] obtain s1 where
        r1: "(lc_step R E k)\<^sup>*\<^sup>* s s1" and a1: "st_actions (lc_strategy s1) = lc_action k # post"
        and q1: "list_all quiet_event (lc_events s1)"
        and p1: "lc_pc s1 = lc_pc s \<and> lc_snap s1 = lc_snap s \<and> lc_warned s1 = lc_warned s \<and>
                 lc_exited s1 = lc_exited s \<and> h_wrapper (lc_handle s1) = h_wrapper (lc_handle s)"
        by blast
      define s2 where "s2 = s1\<lparr>lc_handle := (lc_handle s1)\<lparr>h_strategy := (lc_strategy s1)\<lparr>st_actions := post\<rparr>\<rparr>,
                               lc_events := lc_events s1 @ [lc_reply k]\<rparr>"
      have st: "lc_step R E k s1 s2"
        unfolding s2_def by (rule lc_answer [OF a1]) simp
      from p1 assms(2) sn nw x le have p2: "lc_pc s2 = LcAwaiting" "lc_snap s2 = Some n" "\<not> lc_warned s2"
        "\<not> lc_exited s2" "n \<le> n_calls (lc_notify k s2)"
        by (simp_all add: s2_def)
      have e2: "lc_events s2 = lc_events s1 @ lc_reply k # []" by (simp add: s2_def)
      from lc_reply_queued_returns [OF p2 e2 q1] obtain t where
        r3: "(lc_step R E k)\<^sup>*\<^sup>* s2 t" and t: "lc_pc t = LcReturned \<and> \<not> lc_warned t"
        by blast
      from rtranclp_trans [OF rtranclp.rtrancl_into_rtrancl [OF r1 st] r3] t show ?thesis by blast
    qed
  qed
qed

lemma lc_step_returns:
  assumes "lc_step R E k s s1" and "lc_inv k s" and "lc_pc s1 = LcAwaiting"
  shows "\<exists>t. (lc_step R E k)\<^sup>*\<^sup>* s t \<and> lc_pc t = LcReturned \<and> \<not> lc_warned t"
proof -
  from lc_awaiting_returns [OF lc_inv_step [OF assms(1,2)] assms(3)] obtain t where
    r: "(lc_step R E k)\<^sup>*\<^sup>* s1 t" and t: "lc_pc t = LcReturned \<and> \<not> lc_warned t"
    by blast
  from converse_rtranclp_into_rtranclp [OF assms(1) r] t show ?thesis by blast
qed

lemma lc_sending_returns:
  assumes "lc_inv k s" and "lc_pc s = LcSending"
  shows "\<exists>t. (lc_step R E k)\<^sup>*\<^sup>* s t \<and> lc_pc t = LcReturned \<and> \<not> lc_warned t"
proof -
  from assms have "\<not> st_closed (lc_strategy s)" by (simp add: lc_inv_def lc_open_def)
  from lc_send_action_open [OF this, of "lc_action k"] obtain st' where
    "send_action (lc_action k) (lc_strategy s) = Ok st'" by blast
  from lc_send_ok [OF assms(2) this] have "lc_step R E k s (s\<lparr>lc_pc := LcAwaiting, lc_handle := (lc_handle s)\<lparr>h_strategy := st'\<rparr>\<rparr>)" .
  from lc_step_returns [OF this assms(1)] show ?thesis by simp
qed

lemma lc_inv_returns:
  assumes "lc_inv k s"
  shows "\<exists>t. (lc_step R E k)\<^sup>*\<^sup>* s t \<and> lc_pc t = LcReturned \<and> \<not> lc_warned t"
proof (cases "lc_pc s")
  case LcEntry
  define s1 where "s1 = s\<lparr>lc_pc := LcSending, lc_snap := Some (notified (lc_notify k s))\<rparr>"
  have st: "lc_step R E k s s1" unfolding s1_def by (rule lc_subscribe [OF LcEntry])
  from lc_sending_returns [OF lc_inv_step [OF st assms]] obtain t where
    r: "(lc_step R E k)\<^sup>*\<^sup>* s1 t" and t: "lc_pc t = LcReturned \<and> \<not> lc_warned t"
    by (auto simp: s1_def)
  from converse_rtranclp_into_rtranclp [OF st r] t show ?thesis by blast
next
  case LcSending
  from lc_sending_returns [OF assms this] show ?thesis .
next
  case LcAwaiting
  from lc_awaiting_returns [OF assms this] show ?thesis .
next
  case LcReturned
  with assms show ?thesis by (intro exI [of _ s]) (simp add: lc_inv_def)
qed

subsection \<open>The lifecycle calls return\<close>

text \<open>
  C12: A \<open>close\<close>, \<open>sync\<close> or \<open>flush\<close> call started on an open receiver, whose
  pending actions and events are all answered without breaking the loop, can return
  from \<open>notify.await\<close> from every state the caller, the strategy and the loop reach
  together: because the subscription is taken before the action is sent, the event
  that answers the action is never handled before the future that waits for it exists,
  and the call never takes the warning branch.
\<close>

theorem lifecycle_call_returns:
  assumes "lc_start_ok s0" and "(lc_step R E k)\<^sup>*\<^sup>* s0 s"
  shows "\<exists>t. (lc_step R E k)\<^sup>*\<^sup>* s t \<and> lc_pc t = LcReturned \<and> \<not> lc_warned t"
  using lc_inv_returns [OF lc_inv_reach [OF assms(2) lc_inv_start [OF assms(1)]]] .

theorem lifecycle_call_returns_witness:
  "lc_start_ok example_lc_start \<and>
   (\<exists>t. (lc_step (RTy ''()'' []) (RTy ''Error'' []) LcClose)\<^sup>*\<^sup>* example_lc_start t \<and>
        lc_pc t = LcReturned \<and> \<not> lc_warned t)"
proof
  show s: "lc_start_ok example_lc_start"
    by (simp add: lc_start_ok_def example_lc_start_def example_handle_def)
  from lifecycle_call_returns [OF s rtranclp.rtrancl_refl]
  show "\<exists>t. (lc_step (RTy ''()'' []) (RTy ''Error'' []) LcClose)\<^sup>*\<^sup>* example_lc_start t \<and>
        lc_pc t = LcReturned \<and> \<not> lc_warned t" .
qed

end
