(* ===== verification/Receiver_Misc.thy ===== *)
theory Receiver_Misc
  imports Wrapper
begin

text \<open>
  The remaining observers of \<open>src/src/receiver.rs\<close>: the \<open>Display\<close> of
  \<open>ReceiverStats\<close> (lines 598--620) and the \<open>Debug\<close> and \<open>PartialEq\<close> impls of
  \<open>Receiver\<close> (lines 652--665). \<open>Receiver\<close> holds an \<open>Arc<dyn ReceiverTrait>\<close>;
  \<open>ReceiverTrait\<close> does not have \<open>Any\<close> as a supertrait, and \<open>std::any::Any\<close> is in
  scope, so \<open>self.inner.type_id()\<close> resolves to \<open><Arc<dyn ReceiverTrait> as Any>::type_id\<close>:
  the \<open>TypeId\<close> of the handle's own type, not of the wrapper inside it.
  \<open>{}\<close> on a \<open>u64\<close> is its decimal rendering \<open>show_u64\<close>.
\<close>

record receiver_stats =
  rs_name :: string
  rs_fields :: "(string \<times> u64) list"

text \<open>Decimal digits, as \<open>Display for u64\<close> writes them.\<close>

fun show_nat :: "nat \<Rightarrow> string" where
  "show_nat n = (if n < 10 then [char_of (48 + n)] else show_nat (n div 10) @ [char_of (48 + n mod 10)])"

definition show_u64 :: "u64 \<Rightarrow> string" where
  "show_u64 v = show_nat (unat v)"

text \<open>The \<open>for (idx, (k, v)) in self.fields.iter().enumerate()\<close> loop.\<close>

fun stats_fields_fmt :: "nat \<Rightarrow> (string \<times> u64) list \<Rightarrow> string" where
  "stats_fields_fmt idx [] = []"
| "stats_fields_fmt idx ((k, v) # fs) =
     (if idx \<noteq> 0 then '', '' else []) @ k @ '': '' @ show_u64 v @ stats_fields_fmt (Suc idx) fs"

text \<open>\<open>Display for ReceiverStats\<close>: \<open>{{\<close> and \<open>}}\<close> are literal braces.\<close>

definition stats_display :: "receiver_stats \<Rightarrow> string" where
  "stats_display s = ''-- '' @ rs_name s @ '': { '' @ stats_fields_fmt 0 (rs_fields s) @ '' }''"

text \<open>\<open>self.inner.type_id()\<close> on the \<open>Arc<dyn ReceiverTrait>\<close> of a handle.\<close>

definition receiver_type_id :: "'u handle \<Rightarrow> rty" where
  "receiver_type_id h = RTy ''alloc::sync::Arc'' [RTy ''dyn messagebus::receiver::ReceiverTrait'' []]"

definition receiver_eq :: "'u handle \<Rightarrow> 'u handle \<Rightarrow> bool" where
  "receiver_eq h other = (receiver_type_id h = receiver_type_id other)"

definition receiver_debug :: "'u handle \<Rightarrow> string" where
  "receiver_debug h = ''Receiver('' @ tag_of (receiver_type_id h) @ '')''"

subsection \<open>Reference rendering\<close>

text \<open>Strings joined by a separator string.\<close>

fun join_sep :: "string \<Rightarrow> string list \<Rightarrow> string" where
  "join_sep sep [] = []"
| "join_sep sep [x] = x"
| "join_sep sep (x # y # zs) = x @ sep @ join_sep sep (y # zs)"

definition field_text :: "string \<times> u64 \<Rightarrow> string" where
  "field_text kv = fst kv @ '': '' @ show_u64 (snd kv)"

subsection \<open>Lemmas\<close>

lemma stats_fields_fmt_Suc:
  "stats_fields_fmt (Suc i) fs = concat (map (\<lambda>kv. '', '' @ field_text kv) fs)"
  by (induction fs arbitrary: i) (auto simp: field_text_def)

lemma join_sep_Cons: "join_sep sep (x # xs) = x @ concat (map (\<lambda>y. sep @ y) xs)"
  by (induction xs arbitrary: x) auto

lemma stats_fields_fmt_0: "stats_fields_fmt 0 fs = join_sep '', '' (map field_text fs)"
proof (cases fs)
  case (Cons f gs)
  then show ?thesis
    by (cases f) (simp add: stats_fields_fmt_Suc field_text_def join_sep_Cons o_def)
qed simp

subsection \<open>Properties\<close>

text \<open>
  \<open>Display for ReceiverStats\<close> renders \<open>-- name: { k1: v1, k2: v2 }\<close>: its
  enumerate loop, which writes the separator before every field but the first, is
  the fields' \<open>k: v\<close> texts joined with \<open>", "\<close>, in order, between literal braces.
\<close>

theorem stats_display_joined:
  "stats_display s = ''-- '' @ rs_name s @ '': { '' @ join_sep '', '' (map field_text (rs_fields s)) @ '' }''"
  by (simp add: stats_display_def stats_fields_fmt_0)

end
