(* ===== verification/Derive.thy ===== *)
theory Derive
  imports Envelope
begin

text \<open>
  The derive macros \<open>#[derive(Message)]\<close> and \<open>#[derive(Error)]\<close> of
  \<open>src/crates/derive/src/lib.rs\<close>. The input of a macro is the parsed item
  (\<open>syn::DeriveInput\<close>): its name, its attributes and its generic parameters. An
  attribute's tokens are the one parenthesised group \<open>(...)\<close> that \<open>parenthesized!\<close>
  accepts, or anything else (a parse error). The output is the generated impls,
  represented by what their methods compute: the format string and arguments of
  \<open>TypeTagged::type_tag_()\<close>, the bounds added to each generic parameter, and the
  chosen bodies of the shared and clone methods. \<open>format!\<close> is modelled by
  \<open>rust_format\<close> for the \<open>{}\<close>, \<open>{{\<close> and \<open>}}\<close> forms; any other brace is a
  rejected format string (\<open>None\<close>: the generated impl does not compile).
\<close>

subsection \<open>Tokens, attributes and the derive input\<close>

datatype token = TLit string | TIdent string | TComma | TPunct char

datatype tok_stream = AttrParen "token list" | AttrNotParen "token list"

record attribute =
  attr_path :: "string list"
  attr_tokens :: tok_stream

datatype generic_param = GLifetime string | GType string "string list" | GConst string

record derive_input =
  di_ident :: string
  di_attrs :: "attribute list"
  di_generics :: "generic_param list"

text \<open>\<open>Path::get_ident\<close>: a path of one segment.\<close>

fun path_get_ident :: "string list \<Rightarrow> string option" where
  "path_get_ident [i] = Some i"
| "path_get_ident _ = None"

text \<open>
  \<open>Punctuated::parse_terminated\<close>: items separated by commas, a trailing comma
  allowed; an item that does not parse, or two items without a comma, is an error.
\<close>

fun parse_terminated :: "(token \<Rightarrow> 'a option) \<Rightarrow> token list \<Rightarrow> ('a list, string) result" where
  "parse_terminated p [] = Ok []"
| "parse_terminated p (t # ts) =
     (case p t of
        None \<Rightarrow> Err ''unexpected token''
      | Some v \<Rightarrow>
          (case ts of
             [] \<Rightarrow> Ok [v]
           | u # ts' \<Rightarrow>
               (if u = TComma then
                  (case parse_terminated p ts' of Ok vs \<Rightarrow> Ok (v # vs) | Err e \<Rightarrow> Err e)
                else Err ''expected `,`'')))"

fun lit_of :: "token \<Rightarrow> string option" where
  "lit_of (TLit s) = Some s"
| "lit_of _ = None"

fun ident_of :: "token \<Rightarrow> string option" where
  "ident_of (TIdent s) = Some s"
| "ident_of _ = None"

text \<open>
  \<open>TypeTag::parse\<close> (lines 142--154): the literals in parentheses; the first one is
  kept, and \<open>inner.unwrap()\<close> panics on an empty list. A syntax error is \<open>Err\<close>.
\<close>

definition type_tag_parse :: "tok_stream \<Rightarrow> (string, string) result may_panic" where
  "type_tag_parse ts =
     (case ts of
        AttrNotParen _ \<Rightarrow> Inr (Err ''expected parentheses'')
      | AttrParen content \<Rightarrow>
          (case parse_terminated lit_of content of
             Err e \<Rightarrow> Inr (Err e)
           | Ok lits \<Rightarrow>
               (case option_unwrap (case lits of [] \<Rightarrow> None | l # _ \<Rightarrow> Some l) of
                  Inl p \<Rightarrow> Inl p
                | Inr l \<Rightarrow> Inr (Ok l))))"

text \<open>\<open>Tags\<close> (lines 156--160), its \<open>Default\<close>, and \<open>Tags::add\<close> (lines 163--166).\<close>

record tags =
  has_clone :: bool
  has_shared :: bool

definition tags_default :: tags where
  "tags_default = \<lparr>has_clone = False, has_shared = False\<rparr>"

definition tags_add :: "tags \<Rightarrow> tags \<Rightarrow> tags" where
  "tags_add s other =
     s\<lparr>has_clone := has_clone s \<or> has_clone other, has_shared := has_shared s \<or> has_shared other\<rparr>"

text \<open>
  \<open>Tags::parse\<close> (lines 169--191): identifiers in parentheses; \<open>shared\<close> and
  \<open>clone\<close> set their flag, any other identifier is ignored.
\<close>

definition tags_flag :: "string \<Rightarrow> bool \<times> bool \<Rightarrow> bool \<times> bool" where
  "tags_flag v st =
     (let (sh, cl) = st in
      if v = ''shared'' then (True, cl) else if v = ''clone'' then (sh, True) else (sh, cl))"

definition tags_parse :: "tok_stream \<Rightarrow> (tags, string) result" where
  "tags_parse ts =
     (case ts of
        AttrNotParen _ \<Rightarrow> Err ''expected parentheses''
      | AttrParen content \<Rightarrow>
          (case parse_terminated ident_of content of
             Err e \<Rightarrow> Err e
           | Ok vals \<Rightarrow>
               (let (sh, cl) = fold tags_flag vals (False, False)
                in Ok \<lparr>has_clone = cl, has_shared = sh\<rparr>)))"

subsection \<open>The attribute loops\<close>

text \<open>The three locals \<open>tags\<close>, \<open>type_tag\<close>, \<open>namespace\<close> of the macros.\<close>

record attr_scan =
  sc_tags :: tags
  sc_type_tag :: "string option"
  sc_namespace :: "string option"

definition scan_init :: attr_scan where
  "scan_init = \<lparr>sc_tags = tags_default, sc_type_tag = None, sc_namespace = None\<rparr>"

text \<open>\<open>syn::parse2::<TypeTag>(..).unwrap()\<close> followed by \<open>.inner.value()\<close>.\<close>

definition parse_type_tag_attr :: "tok_stream \<Rightarrow> string may_panic" where
  "parse_type_tag_attr ts = (case type_tag_parse ts of Inl p \<Rightarrow> Inl p | Inr r \<Rightarrow> unwrap r)"

text \<open>The \<open>for attr in &ast.attrs\<close> loop of \<open>derive_message\<close> (lines 203--224).\<close>

fun message_attrs :: "attribute list \<Rightarrow> attr_scan \<Rightarrow> attr_scan may_panic" where
  "message_attrs [] s = Inr s"
| "message_attrs (a # as) s =
     (case path_get_ident (attr_path a) of
        None \<Rightarrow> message_attrs as s
      | Some i \<Rightarrow>
          (if i = ''message'' then
             (case unwrap (tags_parse (attr_tokens a)) of
                Inl p \<Rightarrow> Inl p
              | Inr tt \<Rightarrow> message_attrs as (s\<lparr>sc_tags := tags_add (sc_tags s) tt\<rparr>))
           else if i = ''type_tag'' then
             (case parse_type_tag_attr (attr_tokens a) of
                Inl p \<Rightarrow> Inl p
              | Inr v \<Rightarrow> message_attrs as (s\<lparr>sc_type_tag := Some v\<rparr>))
           else if i = ''namespace'' then
             (case parse_type_tag_attr (attr_tokens a) of
                Inl p \<Rightarrow> Inl p
              | Inr v \<Rightarrow> message_attrs as (s\<lparr>sc_namespace := Some v\<rparr>))
           else message_attrs as s))"

text \<open>The same loop of \<open>derive_error\<close> (lines 266--282): it has no \<open>message\<close> arm.\<close>

fun error_attrs :: "attribute list \<Rightarrow> attr_scan \<Rightarrow> attr_scan may_panic" where
  "error_attrs [] s = Inr s"
| "error_attrs (a # as) s =
     (case path_get_ident (attr_path a) of
        None \<Rightarrow> error_attrs as s
      | Some i \<Rightarrow>
          (if i = ''type_tag'' then
             (case parse_type_tag_attr (attr_tokens a) of
                Inl p \<Rightarrow> Inl p
              | Inr v \<Rightarrow> error_attrs as (s\<lparr>sc_type_tag := Some v\<rparr>))
           else if i = ''namespace'' then
             (case parse_type_tag_attr (attr_tokens a) of
                Inl p \<Rightarrow> Inl p
              | Inr v \<Rightarrow> error_attrs as (s\<lparr>sc_namespace := Some v\<rparr>))
           else error_attrs as s))"

subsection \<open>\<open>type_tag_part\<close> (lines 58--136)\<close>

text \<open>The name: the \<open>type_tag\<close> attribute, else \<open>namespace::Class\<close>, else the class name.\<close>

definition tag_name :: "string option \<Rightarrow> string option \<Rightarrow> string \<Rightarrow> string" where
  "tag_name type_tag namespace class_name =
     (case type_tag of
        Some tt \<Rightarrow> tt
      | None \<Rightarrow> (case namespace of Some ns \<Rightarrow> ns @ ''::'' @ class_name | None \<Rightarrow> class_name))"

text \<open>\<open>param.bounds.push(bound)\<close> on the type parameters of the cloned generics.\<close>

fun add_bound :: "string \<Rightarrow> generic_param \<Rightarrow> generic_param" where
  "add_bound b (GType i bs) = GType i (bs @ [b])"
| "add_bound b p = p"

text \<open>
  The loop over the generic parameters (lines 79--108) with its three locals
  \<open>type_name\<close>, \<open>type_values\<close> and \<open>need_close\<close>. \<open>type_values\<close> is the string
  \<open>"(" + "<T as messagebus::TypeTagged>::type_tag_()" + "," + ...\<close> that is then
  parsed back into a tuple expression; the model keeps the list of its elements, the
  parameter names \<open>T\<close>, so that \<open>type_values.len() > 1\<close> is "the list is not empty".
\<close>

fun tt_loop :: "generic_param list \<Rightarrow> string \<Rightarrow> string list \<Rightarrow> bool \<Rightarrow> (string \<times> string list \<times> bool) may_panic" where
  "tt_loop [] type_name type_values need_close = Inr (type_name, type_values, need_close)"
| "tt_loop (GLifetime _ # ps) type_name type_values need_close = tt_loop ps type_name type_values need_close"
| "tt_loop (GType i _ # ps) type_name type_values need_close =
     tt_loop ps (type_name @ (if \<not> need_close then ''<'' else '','') @ ''{}'') (type_values @ [i]) True"
| "tt_loop (GConst _ # ps) type_name type_values need_close = Inl (Panic ''not implemented'')"

text \<open>
  The body of the generated \<open>type_tag_()\<close>: \<open>format!(type_name, type_values)\<close> when
  there are type parameters, the literal \<open>type_name.into()\<close> otherwise.
\<close>

datatype tag_body = TagLiteral string | TagFormat string "string list"

record tag_impl =
  ti_generics :: "generic_param list"
  ti_class :: string
  ti_body :: tag_body

definition type_tag_part :: "derive_input \<Rightarrow> string option \<Rightarrow> string option \<Rightarrow> tag_impl may_panic" where
  "type_tag_part ast type_tag namespace =
     (let name = tag_name type_tag namespace (di_ident ast) in
      case tt_loop (di_generics ast) name [] False of
        Inl p \<Rightarrow> Inl p
      | Inr (type_name, type_values, need_close) \<Rightarrow>
          (let type_name' = (if need_close then type_name @ ''>'' else type_name) in
           Inr \<lparr>ti_generics = map (add_bound ''messagebus::TypeTagged'') (di_generics ast),
                ti_class = di_ident ast,
                ti_body = (if type_values \<noteq> [] then TagFormat type_name' type_values
                           else TagLiteral type_name')\<rparr>))"

text \<open>
  \<open>format!\<close> with positional \<open>{}\<close> arguments and the escapes \<open>{{\<close>, \<open>}}\<close>. A
  placeholder without an argument, an argument without a placeholder, or any other
  use of a brace is rejected when the generated code is compiled (\<open>None\<close>).
\<close>

fun rust_format :: "string \<Rightarrow> string list \<Rightarrow> string option" where
  "rust_format [] args = (if args = [] then Some [] else None)"
| "rust_format (c # cs) args =
     (if c = CHR ''{'' then
        (case cs of
           [] \<Rightarrow> None
         | d # cs' \<Rightarrow>
             (if d = CHR ''{'' then map_option (Cons c) (rust_format cs' args)
              else if d = CHR ''}'' then
                (case args of
                   [] \<Rightarrow> None
                 | a # args' \<Rightarrow> map_option ((@) a) (rust_format cs' args'))
              else None))
      else if c = CHR ''}'' then
        (case cs of
           [] \<Rightarrow> None
         | d # cs' \<Rightarrow> (if d = CHR ''}'' then map_option (Cons c) (rust_format cs' args) else None))
      else map_option (Cons c) (rust_format cs args))"

text \<open>
  What the generated \<open>type_tag_()\<close> returns, for an instantiation that gives each
  type parameter (by name) the tag of its argument: \<open><T as TypeTagged>::type_tag_()\<close>.
\<close>

primrec type_tag_eval :: "tag_body \<Rightarrow> (string \<Rightarrow> type_tag) \<Rightarrow> type_tag option" where
  "type_tag_eval (TagLiteral s) inst = Some s"
| "type_tag_eval (TagFormat f vals) inst = rust_format f (map inst vals)"

subsection \<open>\<open>shared_part\<close> and \<open>clone_part\<close> (lines 12--56)\<close>

datatype shared_tokens = SharedImpl | NoSharedImpl

definition shared_part :: "bool \<Rightarrow> shared_tokens" where
  "shared_part h = (if h then SharedImpl else NoSharedImpl)"

text \<open>The generated \<open>as_shared_ref\<close> (also \<open>as_shared_mut\<close>, \<open>as_shared_arc\<close>).\<close>

primrec as_shared_ref :: "shared_tokens \<Rightarrow> 'a \<Rightarrow> 'a option" where
  "as_shared_ref SharedImpl x = Some x"
| "as_shared_ref NoSharedImpl x = None"

text \<open>The generated \<open>as_shared_boxed\<close>: \<open>Ok(self)\<close> or \<open>Err(self)\<close>.\<close>

primrec as_shared_boxed :: "shared_tokens \<Rightarrow> 'u dyn \<Rightarrow> ('u dyn, 'u dyn) result" where
  "as_shared_boxed SharedImpl b = Ok b"
| "as_shared_boxed NoSharedImpl b = Err b"

datatype clone_tokens = CloneImpl | NoCloneImpl

definition clone_part :: "bool \<Rightarrow> clone_tokens" where
  "clone_part h = (if h then CloneImpl else NoCloneImpl)"

text \<open>The runtime type \<open>Option<T>\<close>.\<close>

definition option_ty :: "rty \<Rightarrow> rty" where
  "option_ty T = RTy ''core::option::Option'' [T]"

text \<open>
  The generated \<open>try_clone_into\<close> of a value \<open>x\<close> of type \<open>T\<close> (\<open>Self\<close>):
  \<open>into.downcast_mut::<Option<T>>()\<close>, then \<open>into.replace(x.clone())\<close>. The
  derived \<open>Clone\<close> of the user's type is the identity on the model's values.
\<close>

primrec try_clone_into :: "clone_tokens \<Rightarrow> rty \<Rightarrow> 'u \<Rightarrow> 'u option dyn \<Rightarrow> bool \<times> 'u option dyn" where
  "try_clone_into CloneImpl T x into =
     (case downcast (option_ty T) into of
        Inl _ \<Rightarrow> (False, into)
      | Inr _ \<Rightarrow> (True, Dyn (dyn_ty into) (Some x)))"
| "try_clone_into NoCloneImpl T x into = (False, into)"

text \<open>The generated \<open>try_clone_boxed\<close>: \<open>Some(Box::new(x.clone()))\<close> or \<open>None\<close>.\<close>

primrec try_clone_boxed :: "clone_tokens \<Rightarrow> rty \<Rightarrow> 'u \<Rightarrow> 'u dyn option" where
  "try_clone_boxed CloneImpl T x = Some (into_boxed T x)"
| "try_clone_boxed NoCloneImpl T x = None"

subsection \<open>The macros\<close>

record message_impl =
  mi_tag :: tag_impl
  mi_generics :: "generic_param list"
  mi_class :: string
  mi_shared :: shared_tokens
  mi_clone :: clone_tokens

text \<open>\<open>derive_message\<close> (lines 194--258).\<close>

definition derive_message :: "derive_input \<Rightarrow> message_impl may_panic" where
  "derive_message ast =
     (case message_attrs (di_attrs ast) scan_init of
        Inl p \<Rightarrow> Inl p
      | Inr s \<Rightarrow>
          (case type_tag_part ast (sc_type_tag s) (sc_namespace s) of
             Inl p \<Rightarrow> Inl p
           | Inr ttp \<Rightarrow>
               Inr \<lparr>mi_tag = ttp,
                    mi_generics = map (add_bound ''messagebus::MessageBounds'') (di_generics ast),
                    mi_class = di_ident ast,
                    mi_shared = shared_part (has_shared (sc_tags s)),
                    mi_clone = clone_part (has_clone (sc_tags s))\<rparr>))"

text \<open>\<open>derive_error\<close> (lines 260--290): only the \<open>TypeTagged\<close> impl.\<close>

definition derive_error :: "derive_input \<Rightarrow> tag_impl may_panic" where
  "derive_error ast =
     (case error_attrs (di_attrs ast) scan_init of
        Inl p \<Rightarrow> Inl p
      | Inr s \<Rightarrow> type_tag_part ast (sc_type_tag s) (sc_namespace s))"

subsection \<open>Observations on the derive input\<close>

text \<open>The type parameters of a generic list, and its const parameters.\<close>

fun type_params :: "generic_param list \<Rightarrow> string list" where
  "type_params [] = []"
| "type_params (GType i _ # ps) = i # type_params ps"
| "type_params (_ # ps) = type_params ps"

fun is_const_param :: "generic_param \<Rightarrow> bool" where
  "is_const_param (GConst _) = True"
| "is_const_param _ = False"

text \<open>The \<open>{}\<close> slots that the loop appends for \<open>k\<close> type parameters.\<close>

fun fmt_slots :: "bool \<Rightarrow> nat \<Rightarrow> string" where
  "fmt_slots nc 0 = []"
| "fmt_slots nc (Suc k) = (if nc then '','' else ''<'') @ ''{}'' @ fmt_slots True k"

definition brace_free :: "string \<Rightarrow> bool" where
  "brace_free s = (CHR ''{'' \<notin> set s \<and> CHR ''}'' \<notin> set s)"

text \<open>The first literal of each attribute named \<open>i\<close>, and whether a \<open>#[message(..)]\<close> lists a flag.\<close>

definition attr_is :: "string \<Rightarrow> attribute \<Rightarrow> bool" where
  "attr_is i a = (path_get_ident (attr_path a) = Some i)"

fun first_lit :: "tok_stream \<Rightarrow> string option" where
  "first_lit (AttrParen (TLit v # _)) = Some v"
| "first_lit _ = None"

definition attr_values :: "string \<Rightarrow> attribute list \<Rightarrow> string list" where
  "attr_values i as = List.map_filter (\<lambda>a. if attr_is i a then first_lit (attr_tokens a) else None) as"

fun lists_flag :: "string \<Rightarrow> attribute \<Rightarrow> bool" where
  "lists_flag f a = (attr_is ''message'' a \<and> (case attr_tokens a of AttrParen ts \<Rightarrow> TIdent f \<in> set ts | _ \<Rightarrow> False))"

definition scan_tag_fields :: "attr_scan \<Rightarrow> string option \<times> string option" where
  "scan_tag_fields r = (sc_type_tag r, sc_namespace r)"

definition scan_result_fields :: "attr_scan may_panic \<Rightarrow> (string option \<times> string option) may_panic" where
  "scan_result_fields r = (case r of Inl p \<Rightarrow> Inl p | Inr s \<Rightarrow> Inr (scan_tag_fields s))"

text \<open>The name a derived type's tag starts with, read off its attributes.\<close>

definition derived_name :: "derive_input \<Rightarrow> string" where
  "derived_name ast =
     (if attr_values ''type_tag'' (di_attrs ast) \<noteq> [] then last (attr_values ''type_tag'' (di_attrs ast))
      else if attr_values ''namespace'' (di_attrs ast) \<noteq> [] then
        last (attr_values ''namespace'' (di_attrs ast)) @ ''::'' @ di_ident ast
      else di_ident ast)"

text \<open>A generic message \<open>#[namespace("api")] #[message(clone,)] struct Pair<'a, K, V: Clone>\<close>.\<close>

definition example_input :: derive_input where
  "example_input =
     \<lparr>di_ident = ''Pair'',
      di_attrs = [\<lparr>attr_path = [''namespace''], attr_tokens = AttrParen [TLit ''api'']\<rparr>,
                  \<lparr>attr_path = [''message''], attr_tokens = AttrParen [TIdent ''clone'', TComma]\<rparr>],
      di_generics = [GLifetime ''a'', GType ''K'' [], GType ''V'' [''Clone'']]\<rparr>"

text \<open>\<open>#[type_tag("wrap{}")] struct Wrap\<close>, with the given generic parameters.\<close>

definition brace_input :: "generic_param list \<Rightarrow> derive_input" where
  "brace_input gs =
     \<lparr>di_ident = ''Wrap'',
      di_attrs = [\<lparr>attr_path = [''type_tag''], attr_tokens = AttrParen [TLit ''wrap{}'']\<rparr>],
      di_generics = gs\<rparr>"

subsection \<open>Lemmas\<close>

lemma tt_loop_ok:
  "\<not> list_ex is_const_param ps \<Longrightarrow>
   tt_loop ps tn tv nc =
     Inr (tn @ fmt_slots nc (length (type_params ps)), tv @ type_params ps, nc \<or> type_params ps \<noteq> [])"
proof (induction ps arbitrary: tn tv nc)
  case Nil
  then show ?case by simp
next
  case (Cons p ps)
  then show ?case by (cases p) auto
qed

lemma tt_loop_const:
  "list_ex is_const_param ps \<Longrightarrow> tt_loop ps tn tv nc = Inl (Panic ''not implemented'')"
proof (induction ps arbitrary: tn tv nc)
  case Nil
  then show ?case by simp
next
  case (Cons p ps)
  then show ?case by (cases p) auto
qed

lemma rust_format_plain:
  "brace_free s \<Longrightarrow> rust_format (s @ r) args = map_option ((@) s) (rust_format r args)"
proof (induction s)
  case Nil
  then show ?case by (cases "rust_format r args") simp_all
next
  case (Cons c s)
  then show ?case by (auto simp: brace_free_def option.map_comp o_def)
qed

lemma rust_format_slots:
  "rust_format (fmt_slots True (length args) @ ''>'') args = Some (concat (map (Cons CHR '','') args) @ ''>'')"
  by (induction args) auto

lemma type_tag_part_eval:
  assumes "\<not> list_ex is_const_param (di_generics ast)"
    and "brace_free (tag_name tt ns (di_ident ast))"
  shows "\<exists>ti. type_tag_part ast tt ns = Inr ti \<and>
    type_tag_eval (ti_body ti) inst =
      Some (tag_name tt ns (di_ident ast) @
        (if type_params (di_generics ast) = [] then []
         else ''<'' @ join_with CHR '','' (map inst (type_params (di_generics ast))) @ ''>''))"
proof (cases "type_params (di_generics ast)")
  case Nil
  with assms(1) show ?thesis by (simp add: type_tag_part_def tt_loop_ok)
next
  case (Cons p ps)
  have "rust_format (''<{}'' @ fmt_slots True (length (map inst ps)) @ ''>'') (inst p # map inst ps) =
        Some (''<'' @ inst p @ concat (map (Cons CHR '','') (map inst ps)) @ ''>'')"
    using rust_format_slots [of "map inst ps"] by simp
  with assms Cons show ?thesis
    by (simp add: type_tag_part_def tt_loop_ok rust_format_plain join_with_Cons)
qed

lemma parse_terminated_ident:
  "parse_terminated ident_of ts = Ok vs \<Longrightarrow> (v \<in> set vs \<longleftrightarrow> TIdent v \<in> set ts)"
proof (induction ident_of ts arbitrary: vs rule: parse_terminated.induct)
  case 1
  then show ?case by simp
next
  case (2 t ts)
  then show ?case
    by (cases t) (auto split: list.splits if_splits result.splits)
qed

lemma parse_terminated_lit:
  assumes "parse_terminated lit_of ts = Ok (l # ls)"
  shows "\<exists>ts'. ts = TLit l # ts'"
proof (cases ts)
  case (Cons t ts')
  with assms show ?thesis by (cases t) (auto split: list.splits if_splits result.splits)
qed (use assms in simp)

lemma fold_tags_flag:
  "fold tags_flag vs (sh, cl) = (sh \<or> ''shared'' \<in> set vs, cl \<or> ''clone'' \<in> set vs)"
  by (induction vs arbitrary: sh cl) (auto simp: tags_flag_def)

lemma tags_parse_Ok:
  "tags_parse ts = Ok t \<Longrightarrow>
   \<exists>content. ts = AttrParen content \<and>
     has_clone t = (TIdent ''clone'' \<in> set content) \<and> has_shared t = (TIdent ''shared'' \<in> set content)"
  by (auto simp: tags_parse_def fold_tags_flag parse_terminated_ident split: tok_stream.splits result.splits)

lemma parse_type_tag_attr_Inr:
  "parse_type_tag_attr ts = Inr v \<Longrightarrow> first_lit ts = Some v"
  by (auto simp: parse_type_tag_attr_def type_tag_parse_def unwrap_def option_unwrap_def
           dest!: parse_terminated_lit split: tok_stream.splits result.splits list.splits sum.splits)

lemma message_attrs_scan:
  "message_attrs as s = Inr s' \<Longrightarrow>
   sc_type_tag s' = (if attr_values ''type_tag'' as = [] then sc_type_tag s else Some (last (attr_values ''type_tag'' as))) \<and>
   sc_namespace s' = (if attr_values ''namespace'' as = [] then sc_namespace s else Some (last (attr_values ''namespace'' as))) \<and>
   has_clone (sc_tags s') = (has_clone (sc_tags s) \<or> (\<exists>a\<in>set as. lists_flag ''clone'' a)) \<and>
   has_shared (sc_tags s') = (has_shared (sc_tags s) \<or> (\<exists>a\<in>set as. lists_flag ''shared'' a))"
proof (induction as arbitrary: s)
  case Nil
  then show ?case by (simp add: attr_values_def)
next
  case (Cons a as)
  consider (none) "path_get_ident (attr_path a) = None"
    | (msg) "path_get_ident (attr_path a) = Some ''message''"
    | (tt) "path_get_ident (attr_path a) = Some ''type_tag''"
    | (ns) "path_get_ident (attr_path a) = Some ''namespace''"
    | (other) i where "path_get_ident (attr_path a) = Some i" "i \<notin> {''message'', ''type_tag'', ''namespace''}"
    by (cases "path_get_ident (attr_path a)") auto
  then show ?case
  proof cases
    case none
    with Cons show ?thesis by (simp add: attr_values_def map_filter_simps attr_is_def)
  next
    case msg
    with Cons.prems obtain t where t: "tags_parse (attr_tokens a) = Ok t"
      and r: "message_attrs as (s\<lparr>sc_tags := tags_add (sc_tags s) t\<rparr>) = Inr s'"
      by (auto simp: unwrap_def split: result.splits sum.splits)
    from Cons.IH [OF r] tags_parse_Ok [OF t] msg show ?thesis
      by (auto simp: attr_values_def map_filter_simps attr_is_def tags_add_def)
  next
    case tt
    with Cons.prems obtain v where v: "parse_type_tag_attr (attr_tokens a) = Inr v"
      and r: "message_attrs as (s\<lparr>sc_type_tag := Some v\<rparr>) = Inr s'"
      by (auto split: sum.splits)
    from Cons.IH [OF r] parse_type_tag_attr_Inr [OF v] tt show ?thesis
      by (auto simp: attr_values_def map_filter_simps attr_is_def)
  next
    case ns
    with Cons.prems obtain v where v: "parse_type_tag_attr (attr_tokens a) = Inr v"
      and r: "message_attrs as (s\<lparr>sc_namespace := Some v\<rparr>) = Inr s'"
      by (auto split: sum.splits)
    from Cons.IH [OF r] parse_type_tag_attr_Inr [OF v] ns show ?thesis
      by (auto simp: attr_values_def map_filter_simps attr_is_def)
  next
    case other
    with Cons show ?thesis by (simp add: attr_values_def map_filter_simps attr_is_def)
  qed
qed

lemma message_attrs_append:
  "message_attrs (xs @ ys) s = (case message_attrs xs s of Inl p \<Rightarrow> Inl p | Inr s' \<Rightarrow> message_attrs ys s')"
  by (induction xs s rule: message_attrs.induct) (simp_all split: option.split sum.split)

lemma error_attrs_fields:
  "scan_tag_fields s1 = scan_tag_fields s2 \<Longrightarrow>
   scan_result_fields (error_attrs as s1) = scan_result_fields (error_attrs as s2)"
proof (induction as arbitrary: s1 s2)
  case Nil
  then show ?case by (simp add: scan_result_fields_def)
next
  case (Cons a as)
  have tt: "scan_tag_fields (s1\<lparr>sc_type_tag := v\<rparr>) = scan_tag_fields (s2\<lparr>sc_type_tag := v\<rparr>)"
    and ns: "scan_tag_fields (s1\<lparr>sc_namespace := v\<rparr>) = scan_tag_fields (s2\<lparr>sc_namespace := v\<rparr>)" for v
    using Cons.prems by (simp_all add: scan_tag_fields_def)
  show ?case
    by (simp add: Cons.IH [OF Cons.prems] Cons.IH [OF tt] Cons.IH [OF ns] split: option.split sum.split)
qed

lemma message_error_attrs:
  "message_attrs as s = Inr s' \<Longrightarrow> scan_result_fields (error_attrs as s) = Inr (scan_tag_fields s')"
proof (induction as arbitrary: s)
  case Nil
  then show ?case by (simp add: scan_result_fields_def)
next
  case (Cons a as)
  show ?case
  proof (cases "path_get_ident (attr_path a) = Some ''message''")
    case True
    with Cons.prems obtain t where r: "message_attrs as (s\<lparr>sc_tags := t\<rparr>) = Inr s'"
      by (auto simp: unwrap_def split: result.splits sum.splits)
    have "scan_result_fields (error_attrs as s) =
          scan_result_fields (error_attrs as (s\<lparr>sc_tags := t\<rparr>))"
      by (rule error_attrs_fields) (simp add: scan_tag_fields_def)
    moreover have "error_attrs (a # as) s = error_attrs as s" using True by simp
    ultimately show ?thesis using Cons.IH [OF r] by metis
  next
    case False
    consider (none) "path_get_ident (attr_path a) = None"
      | (tt) "path_get_ident (attr_path a) = Some ''type_tag''"
      | (ns) "path_get_ident (attr_path a) = Some ''namespace''"
      | (other) i where "path_get_ident (attr_path a) = Some i" "i \<notin> {''message'', ''type_tag'', ''namespace''}"
      using False by (cases "path_get_ident (attr_path a)") auto
    then show ?thesis
    proof cases
      case tt
      with Cons show ?thesis by (cases "parse_type_tag_attr (attr_tokens a)") simp_all
    next
      case ns
      with Cons show ?thesis by (cases "parse_type_tag_attr (attr_tokens a)") simp_all
    qed (use Cons in simp_all)
  qed
qed

lemma derive_message_scan:
  assumes "derive_message ast = Inr mi"
  obtains s where "message_attrs (di_attrs ast) scan_init = Inr s"
    "mi_clone mi = clone_part (has_clone (sc_tags s))" "mi_shared mi = shared_part (has_shared (sc_tags s))"
  using assms by (auto simp: derive_message_def split: sum.splits)

lemma derive_message_no_const:
  "derive_message ast = Inr mi \<Longrightarrow> \<not> list_ex is_const_param (di_generics ast)"
  by (auto simp: derive_message_def type_tag_part_def tt_loop_const split: sum.splits)

lemma derive_message_name:
  "message_attrs (di_attrs ast) scan_init = Inr s \<Longrightarrow>
   tag_name (sc_type_tag s) (sc_namespace s) (di_ident ast) = derived_name ast"
  by (drule message_attrs_scan) (simp add: tag_name_def derived_name_def scan_init_def)

lemma example_derived:
  "derive_message example_input = Inr
     \<lparr>mi_tag = \<lparr>ti_generics = [GLifetime ''a'', GType ''K'' [''messagebus::TypeTagged''],
                              GType ''V'' [''Clone'', ''messagebus::TypeTagged'']],
                ti_class = ''Pair'', ti_body = TagFormat ''api::Pair<{},{}>'' [''K'', ''V'']\<rparr>,
      mi_generics = [GLifetime ''a'', GType ''K'' [''messagebus::MessageBounds''],
                     GType ''V'' [''Clone'', ''messagebus::MessageBounds'']],
      mi_class = ''Pair'', mi_shared = NoSharedImpl, mi_clone = CloneImpl\<rparr>"
  by (simp add: example_input_def derive_message_def scan_init_def tags_default_def parse_type_tag_attr_def
      type_tag_parse_def option_unwrap_def unwrap_def tags_parse_def tags_add_def tags_flag_def
      type_tag_part_def tag_name_def shared_part_def clone_part_def)


text \<open>The string the derived \<open>type_tag_()\<close> returns, for any instantiation.\<close>

lemma derive_message_render:
  assumes "derive_message ast = Inr mi" and "brace_free (derived_name ast)"
  shows "type_tag_eval (ti_body (mi_tag mi)) inst =
    Some (derived_name ast @
      (if type_params (di_generics ast) = [] then []
       else ''<'' @ join_with CHR '','' (map inst (type_params (di_generics ast))) @ ''>''))"
proof -
  obtain s where s: "message_attrs (di_attrs ast) scan_init = Inr s"
    and ti: "type_tag_part ast (sc_type_tag s) (sc_namespace s) = Inr (mi_tag mi)"
    using assms(1) by (auto simp: derive_message_def split: sum.splits)
  have "tag_name (sc_type_tag s) (sc_namespace s) (di_ident ast) = derived_name ast"
    using s by (rule derive_message_name)
  with type_tag_part_eval [OF derive_message_no_const [OF assms(1)], of "sc_type_tag s" "sc_namespace s" inst]
    assms(2) ti show ?thesis by auto
qed

subsection \<open>Properties of the derived impls\<close>

text \<open>
  C21: the derived \<open>type_tag_()\<close> implements \<open>TypeTagged\<close>: for a type whose tag name
  (the last \<open>type_tag\<close> attribute, else the last \<open>namespace\<close> joined to the type's
  name with \<open>::\<close>, else the type's name) has no braces, an instance whose type
  parameters are given the tags of argument types returns exactly \<open>tag_of\<close> of the
  instance: the name, then the argument tags in order, comma-separated in angle
  brackets; lifetimes are skipped.
\<close>

theorem derive_message_type_tag:
  assumes "derive_message ast = Inr mi"
    and "brace_free (derived_name ast)"
    and "map inst (type_params (di_generics ast)) = map tag_of tys"
  shows "type_tag_eval (ti_body (mi_tag mi)) inst = Some (tag_of (RTy (derived_name ast) tys))"
proof -
  from assms(3) have "(type_params (di_generics ast) = []) = (tys = [])"
    by (metis Nil_is_map_conv)
  with derive_message_render [OF assms(1,2), of inst] assms(3) show ?thesis by simp
qed

theorem derive_message_type_tag_witness:
  "type_tag_eval (ti_body (mi_tag (projr (derive_message example_input)))) (\<lambda>i. if i = ''K'' then ''u8'' else ''String'') =
     Some ''api::Pair<u8,String>''"
proof -
  have n: "derived_name example_input = ''api::Pair''"
    by (simp add: example_input_def derived_name_def attr_values_def attr_is_def)
  have t: "type_params (di_generics example_input) = [''K'', ''V'']"
    by (simp add: example_input_def)
  show ?thesis
    using derive_message_type_tag [OF example_derived, of "\<lambda>i. if i = ''K'' then ''u8'' else ''String''"
        "[RTy ''u8'' [], RTy ''String'' []]"] n t
    by (simp add: brace_free_def example_derived)
qed

text \<open>
  C22: \<open>#[derive(Error)]\<close> generates the same \<open>TypeTagged\<close> impl as
  \<open>#[derive(Message)]\<close> on every input the latter accepts.
\<close>

theorem derive_error_agrees:
  "derive_message ast = Inr mi \<Longrightarrow> derive_error ast = Inr (mi_tag mi)"
  by (auto simp: derive_message_def derive_error_def type_tag_part_def scan_tag_fields_def scan_result_fields_def
           dest!: message_error_attrs split: sum.splits)

theorem derive_error_agrees_witness:
  "derive_error example_input = Inr (mi_tag (projr (derive_message example_input)))"
  using derive_error_agrees [OF example_derived] by (simp add: example_derived)

text \<open>
  C23: the capability flags of a derived message: \<open>try_clone_boxed\<close> returns a box of
  the value and \<open>try_clone_into\<close> fills a target of type \<open>Option<T>\<close> exactly when
  some \<open>#[message(..)]\<close> attribute lists \<open>clone\<close> (otherwise both refuse and the
  target is untouched); \<open>as_shared_boxed\<close> succeeds exactly when one lists
  \<open>shared\<close>, and hands the box back otherwise.
\<close>

theorem derive_message_capabilities:
  assumes "derive_message ast = Inr mi"
  shows "try_clone_boxed (mi_clone mi) T x =
           (if \<exists>a\<in>set (di_attrs ast). lists_flag ''clone'' a then Some (into_boxed T x) else None) \<and>
         try_clone_into (mi_clone mi) T x into =
           (if (\<exists>a\<in>set (di_attrs ast). lists_flag ''clone'' a) \<and> dyn_ty into = option_ty T
            then (True, Dyn (dyn_ty into) (Some x)) else (False, into)) \<and>
         as_shared_boxed (mi_shared mi) b =
           (if \<exists>a\<in>set (di_attrs ast). lists_flag ''shared'' a then Ok b else Err b)"
proof -
  obtain s where s: "message_attrs (di_attrs ast) scan_init = Inr s"
    and c: "mi_clone mi = clone_part (has_clone (sc_tags s))"
    and sh: "mi_shared mi = shared_part (has_shared (sc_tags s))"
    using assms by (rule derive_message_scan)
  from message_attrs_scan [OF s] c sh show ?thesis
    by (simp add: scan_init_def tags_default_def clone_part_def shared_part_def downcast_def)
qed

theorem derive_message_capabilities_witness:
  "try_clone_boxed (mi_clone (projr (derive_message example_input))) (RTy ''Pair'' []) (5::int) =
     Some (into_boxed (RTy ''Pair'' []) 5) \<and>
   as_shared_boxed (mi_shared (projr (derive_message example_input))) (into_boxed (RTy ''Pair'' []) (5::int)) =
     Err (into_boxed (RTy ''Pair'' []) 5)"
proof -
  have a: "di_attrs example_input =
     [\<lparr>attr_path = [''namespace''], attr_tokens = AttrParen [TLit ''api'']\<rparr>,
      \<lparr>attr_path = [''message''], attr_tokens = AttrParen [TIdent ''clone'', TComma]\<rparr>]"
    by (simp add: example_input_def)
  show ?thesis
    using derive_message_capabilities [OF example_derived, of "RTy ''Pair'' []" "5::int"] a
    by (simp add: example_derived attr_is_def)
qed

text \<open>
  C26: a const generic parameter makes both macros panic (\<open>unimplemented!()\<close>) once
  the attributes parse, instead of generating a tag that includes it.
\<close>

theorem derive_const_generic_panics:
  assumes "message_attrs (di_attrs ast) scan_init = Inr s"
    and "list_ex is_const_param (di_generics ast)"
  shows "derive_message ast = Inl (Panic ''not implemented'') \<and>
         derive_error ast = Inl (Panic ''not implemented'')"
proof -
  from message_error_attrs [OF assms(1)] obtain r where "error_attrs (di_attrs ast) scan_init = Inr r"
    by (auto simp: scan_result_fields_def split: sum.splits)
  with assms show ?thesis
    by (simp add: derive_message_def derive_error_def type_tag_part_def tt_loop_const)
qed

theorem derive_const_generic_panics_witness:
  "derive_message (example_input\<lparr>di_generics := [GConst ''N'']\<rparr>) = Inl (Panic ''not implemented'') \<and>
   derive_error (example_input\<lparr>di_generics := [GConst ''N'']\<rparr>) = Inl (Panic ''not implemented'')"
proof -
  have "message_attrs (di_attrs (example_input\<lparr>di_generics := [GConst ''N'']\<rparr>)) scan_init =
     Inr \<lparr>sc_tags = \<lparr>has_clone = True, has_shared = False\<rparr>, sc_type_tag = None, sc_namespace = Some ''api''\<rparr>"
    by (simp add: example_input_def scan_init_def tags_default_def parse_type_tag_attr_def type_tag_parse_def
        option_unwrap_def unwrap_def tags_parse_def tags_add_def tags_flag_def)
  then show ?thesis using derive_const_generic_panics by simp
qed

text \<open>
  An empty \<open>#[type_tag()]\<close> attribute makes \<open>derive_message\<close> panic at the
  \<open>inner.unwrap()\<close> of \<open>TypeTag::parse\<close>, whatever follows it.
\<close>

theorem empty_type_tag_panics:
  assumes "message_attrs pre scan_init = Inr s"
    and "path_get_ident (attr_path a) = Some ''type_tag''"
    and "attr_tokens a = AttrParen []"
  shows "derive_message (ast\<lparr>di_attrs := pre @ a # post\<rparr>) = Inl (Panic ''called Option::unwrap() on a None value'')"
  using assms
  by (simp add: derive_message_def message_attrs_append parse_type_tag_attr_def type_tag_parse_def option_unwrap_def)

theorem empty_type_tag_panics_witness:
  "derive_message (example_input\<lparr>di_attrs := [] @ \<lparr>attr_path = [''type_tag''], attr_tokens = AttrParen []\<rparr> # di_attrs example_input\<rparr>) =
     Inl (Panic ''called Option::unwrap() on a None value'')"
  by (rule empty_type_tag_panics) (simp_all add: scan_init_def)

end
