(* ===== verification/Tag_Parse.thy ===== *)
theory Tag_Parse
  imports Derive
begin

text \<open>
  Reading a type tag back. The spec requires the tag to identify the concrete type,
  generic arguments included. \<open>parse_tag\<close> is the inverse of \<open>tag_of\<close>: a name is the
  longest prefix free of the delimiters \<open><\<close>, \<open>>\<close> and \<open>,\<close>, optionally followed by
  angle-bracketed, comma-separated argument tags. The parser recurses on fuel, and
  \<open>2 * length s + 2\<close> is always enough (\<open>size_tag_bound\<close>). The theory shows that
  \<open>tag_of\<close> parses back to the type whenever the names avoid delimiters and braces
  (\<open>parse_tag_tag_of\<close>), so such tags are injective. The inputs \<open>collide_plain\<close>
  and \<open>collide_generic\<close> are two items whose tags coincide because a
  \<open>type_tag\<close> attribute does not meet this condition.
\<close>

definition tag_delim :: "char \<Rightarrow> bool" where
  "tag_delim c \<longleftrightarrow> c = CHR ''<'' \<or> c = CHR ''>'' \<or> c = CHR '',''"

text \<open>The mutually recursive parser of a type and of an argument list after \<open><\<close>.\<close>

fun parse_ty :: "nat \<Rightarrow> string \<Rightarrow> (rty \<times> string) option"
and parse_args :: "nat \<Rightarrow> string \<Rightarrow> (rty list \<times> string) option" where
  "parse_ty 0 s = None"
| "parse_ty (Suc n) s =
     (let nm = takeWhile (\<lambda>c. \<not> tag_delim c) s; r = dropWhile (\<lambda>c. \<not> tag_delim c) s in
      case r of
        c # r' \<Rightarrow>
          (if c = CHR ''<'' then
             (case parse_args n r' of None \<Rightarrow> None | Some (ts, r'') \<Rightarrow> Some (RTy nm ts, r''))
           else Some (RTy nm [], r))
      | [] \<Rightarrow> Some (RTy nm [], []))"
| "parse_args 0 s = None"
| "parse_args (Suc n) s =
     (case parse_ty n s of
        None \<Rightarrow> None
      | Some (t, r) \<Rightarrow>
          (case r of
             c # r' \<Rightarrow>
               (if c = CHR '','' then
                  (case parse_args n r' of None \<Rightarrow> None | Some (ts, r'') \<Rightarrow> Some (t # ts, r''))
                else if c = CHR ''>'' then Some ([t], r')
                else None)
           | [] \<Rightarrow> None))"

definition parse_tag :: "string \<Rightarrow> rty option" where
  "parse_tag s = (case parse_ty (2 * length s + 2) s of Some (t, []) \<Rightarrow> Some t | _ \<Rightarrow> None)"

text \<open>Types whose names avoid the delimiters, and what may follow a tag inside a larger one.\<close>

fun clean_ty :: "rty \<Rightarrow> bool" where
  "clean_ty (RTy n args) \<longleftrightarrow> (\<forall>c\<in>set n. \<not> tag_delim c) \<and> (\<forall>a\<in>set args. clean_ty a)"

definition tag_end :: "string \<Rightarrow> bool" where
  "tag_end r \<longleftrightarrow> r = [] \<or> hd r = CHR '','' \<or> hd r = CHR ''>''"

definition tag_name_ok :: "string \<Rightarrow> bool" where
  "tag_name_ok n \<longleftrightarrow> brace_free n \<and> (\<forall>c\<in>set n. \<not> tag_delim c)"

text \<open>Two derive inputs: \<open>#[type_tag("Pair<u8>")] struct PairU8\<close> and \<open>struct Pair<T>\<close>.\<close>

definition collide_plain :: derive_input where
  "collide_plain =
     \<lparr>di_ident = ''PairU8'', di_attrs = [\<lparr>attr_path = [''type_tag''], attr_tokens = AttrParen [TLit ''Pair<u8>'']\<rparr>],
      di_generics = []\<rparr>"

definition collide_generic :: derive_input where
  "collide_generic = \<lparr>di_ident = ''Pair'', di_attrs = [], di_generics = [GType ''T'' []]\<rparr>"

subsection \<open>Lemmas\<close>

lemma take_drop_clean:
  assumes "\<forall>c\<in>set n. \<not> tag_delim c"
  shows "takeWhile (\<lambda>c. \<not> tag_delim c) (n @ r) = n @ takeWhile (\<lambda>c. \<not> tag_delim c) r"
    and "dropWhile (\<lambda>c. \<not> tag_delim c) (n @ r) = dropWhile (\<lambda>c. \<not> tag_delim c) r"
  using assms by (induction n) auto

lemma tag_end_take_drop:
  "tag_end r \<Longrightarrow> takeWhile (\<lambda>c. \<not> tag_delim c) r = [] \<and> dropWhile (\<lambda>c. \<not> tag_delim c) r = r"
  by (cases r) (auto simp: tag_end_def tag_delim_def)

lemma parse_args_tag:
  assumes "\<forall>a\<in>set args. \<forall>k rest. size a < k \<longrightarrow> tag_end rest \<longrightarrow> parse_ty k (tag_of a @ rest) = Some (a, rest)"
    and "args \<noteq> []" and "size_list size args < k"
  shows "parse_args k (join_with CHR '','' (map tag_of args) @ CHR ''>'' # rest) = Some (args, rest)"
  using assms
proof (induction args arbitrary: k rule: induct_list012)
  case 1
  then show ?case by simp
next
  case (2 a)
  then obtain k' where k: "k = Suc k'" "size a < k'" by (cases k) auto
  have "parse_ty k' (tag_of a @ CHR ''>'' # rest) = Some (a, CHR ''>'' # rest)"
    using 2 k by (simp add: tag_end_def)
  with k show ?case by simp
next
  case (3 a b cs)
  then obtain k' where k: "k = Suc k'" "size a < k'" "size_list size (b # cs) < k'" by (cases k) auto
  have "parse_ty k' (tag_of a @ CHR '','' # join_with CHR '','' (map tag_of (b # cs)) @ CHR ''>'' # rest) =
        Some (a, CHR '','' # join_with CHR '','' (map tag_of (b # cs)) @ CHR ''>'' # rest)"
    using 3(3) k by (simp add: tag_end_def)
  moreover have "parse_args k' (join_with CHR '','' (map tag_of (b # cs)) @ CHR ''>'' # rest) = Some (b # cs, rest)"
    using 3 k by simp
  ultimately show ?case using k by simp
qed

lemma parse_ty_tag:
  "clean_ty t \<Longrightarrow> size t < k \<Longrightarrow> tag_end rest \<Longrightarrow> parse_ty k (tag_of t @ rest) = Some (t, rest)"
proof (induction t arbitrary: k rest)
  case (RTy n args)
  then obtain k' where k: "k = Suc k'" "size_list size args < k'" by (cases k) auto
  from RTy.prems have n: "\<forall>c\<in>set n. \<not> tag_delim c" by simp
  let ?P = "\<lambda>c. \<not> tag_delim c"
  show ?case
  proof (cases "args = []")
    case True
    have tw: "takeWhile ?P (tag_of (RTy n args) @ rest) = n" "dropWhile ?P (tag_of (RTy n args) @ rest) = rest"
      using take_drop_clean [OF n, of rest] tag_end_take_drop [OF RTy.prems(3)] True by simp_all
    have "rest = [] \<or> hd rest \<noteq> CHR ''<''" using RTy.prems(3) by (auto simp: tag_end_def)
    then show ?thesis
      unfolding k(1) parse_ty.simps Let_def tw using True by (cases rest) simp_all
  next
    case False
    have "\<forall>a\<in>set args. \<forall>k rest. size a < k \<longrightarrow> tag_end rest \<longrightarrow> parse_ty k (tag_of a @ rest) = Some (a, rest)"
      using RTy by auto
    from parse_args_tag [OF this False k(2)] have
      pa: "parse_args k' (join_with CHR '','' (map tag_of args) @ CHR ''>'' # rest) = Some (args, rest)" .
    have tw: "takeWhile ?P (tag_of (RTy n args) @ rest) = n"
      "dropWhile ?P (tag_of (RTy n args) @ rest) = CHR ''<'' # (join_with CHR '','' (map tag_of args) @ CHR ''>'' # rest)"
      using take_drop_clean [OF n] False by (simp_all add: tag_delim_def)
    show ?thesis
      unfolding k(1) parse_ty.simps Let_def tw by (simp add: pa)
  qed
qed

lemma length_join_with:
  "xs \<noteq> [] \<Longrightarrow> length (join_with c xs) + 1 = sum_list (map length xs) + length xs"
  by (induction c xs rule: join_with.induct) auto

lemma size_list_bound:
  "(\<forall>a\<in>set xs. f a \<le> 2 * g a + 1) \<Longrightarrow> size_list f xs \<le> 2 * sum_list (map g xs) + 2 * length xs"
  by (induction xs) auto

lemma size_tag_bound: "size t \<le> 2 * length (tag_of t) + 1"
proof (induction t)
  case (RTy n args)
  show ?case
  proof (cases "args = []")
    case False
    have "size_list size args \<le> 2 * sum_list (map length (map tag_of args)) + 2 * length args"
      using RTy size_list_bound [of args size "\<lambda>a. length (tag_of a)"] by (simp add: o_def)
    moreover have "length (join_with CHR '','' (map tag_of args)) + 1 =
                   sum_list (map length (map tag_of args)) + length args"
      using length_join_with [of "map tag_of args"] False by simp
    ultimately show ?thesis using False by simp
  qed simp
qed

lemma parse_tag_tag_of: "clean_ty t \<Longrightarrow> parse_tag (tag_of t) = Some t"
  using parse_ty_tag [of t "2 * length (tag_of t) + 2" "[]"] size_tag_bound [of t]
  by (simp add: parse_tag_def tag_end_def)

end
