(* ===== verification/TestRelay.thy ===== *)
theory TestRelay
  imports Wrapper Derive
begin

text \<open>
  The relay of \<open>src/tests/test_relay.rs\<close>, the repository's implementation of the
  relay adapter contract (spec section 6): \<open>TypeTagAccept\<close> (\<open>accept\<close>,
  \<open>iter_types\<close>), \<open>SendUntypedReceiver::send\<close> and \<open>send_msg\<close>, and
  \<open>ReciveUnypedReceiver::poll_events\<close>. The relay owns both ends of an unbounded
  \<open>mpsc\<close> channel of events, modelled as the queue \<open>relay_queue\<close>: a send on it never
  fails (its receiver lives as long as the relay), and \<open>poll_recv\<close> never sees the
  channel closed, so \<open>poll_events\<close> is \<open>Pending\<close> (\<open>None\<close>) on an empty queue and
  returns the oldest event otherwise.

  The tags the relay compares are those of the test's types: \<open>Msg<F>\<close> is
  \<open>#[derive(Message)]\<close> and \<open>Error\<close> is \<open>#[derive(MbError)]\<close>, so their
  \<open>type_tag_()\<close> are the impls the \<open>Derive\<close> model generates; the primitive tags
  (\<open>i16\<close>, \<open>u8\<close>, ...) are \<open>tag_of\<close> of the primitive types. Boxed values are
  \<open>rval dyn\<close>: a runtime type and a value of the test's types.
\<close>

datatype rval = MsgV rval | U8V "8 word" | I16V "16 word" | I32V "32 word" | UnitV

text \<open>The primitive types of the test.\<close>

definition prim :: "string \<Rightarrow> rty" where
  "prim n = RTy n []"

text \<open>\<open>#[derive(Debug, Clone, Message)] pub struct Msg<F: MessageBounds + Clone>(pub F)\<close>.\<close>

definition msg_input :: derive_input where
  "msg_input = \<lparr>di_ident = ''Msg'', di_attrs = [], di_generics = [GType ''F'' [''MessageBounds'', ''Clone'']]\<rparr>"

text \<open>\<open>Msg::<F>::type_tag_()\<close>: the derived impl with \<open>F\<close> given the tag of the argument.\<close>

definition msg_tag :: "rty \<Rightarrow> type_tag" where
  "msg_tag F =
     (case derive_message msg_input of
        Inl _ \<Rightarrow> []
      | Inr mi \<Rightarrow> (case type_tag_eval (ti_body (mi_tag mi)) (\<lambda>_. tag_of F) of Some t \<Rightarrow> t | None \<Rightarrow> []))"

text \<open>\<open>#[derive(Debug, Error, MbError)] enum Error\<close> and its \<open>Error::type_tag_()\<close>.\<close>

definition error_input :: derive_input where
  "error_input = \<lparr>di_ident = ''Error'', di_attrs = [], di_generics = []\<rparr>"

definition error_tag :: type_tag where
  "error_tag =
     (case derive_error error_input of
        Inl _ \<Rightarrow> []
      | Inr ti \<Rightarrow> (case type_tag_eval (ti_body ti) (\<lambda>_. []) of Some t \<Rightarrow> t | None \<Rightarrow> []))"

text \<open>The runtime type \<open>Msg<F>\<close>.\<close>

definition msg_rty :: "rty \<Rightarrow> rty" where
  "msg_rty F = RTy ''Msg'' [F]"

record 'u relay =
  relay_queue :: "'u event list"

subsection \<open>\<open>TypeTagAccept for TestRelay\<close> (lines 52--110)\<close>

definition relay_accept :: "type_tag \<Rightarrow> type_tag option \<Rightarrow> type_tag option \<Rightarrow> bool" where
  "relay_accept msg resp err =
     (if msg = msg_tag (prim ''i16'') \<and>
         (case resp of Some r \<Rightarrow> r \<noteq> msg_tag (prim ''u8'') | None \<Rightarrow> False) then False
      else if msg = msg_tag (prim ''i32'') \<and>
         (case resp of Some r \<Rightarrow> r \<noteq> msg_tag (prim ''i64'') \<and> r \<noteq> msg_tag (prim ''()'') | None \<Rightarrow> False)
      then False
      else True)"

text \<open>The three triples \<open>iter_types\<close> offers to its callback, in order.\<close>

definition relay_types :: "(type_tag \<times> type_tag \<times> type_tag) list" where
  "relay_types =
     [(msg_tag (prim ''i16''), msg_tag (prim ''u8''), error_tag),
      (msg_tag (prim ''i32''), msg_tag (prim ''()''), error_tag),
      (msg_tag (prim ''i32''), msg_tag (prim ''i64''), error_tag)]"

text \<open>
  \<open>iter_types\<close>: the callback is called on each triple until it returns \<open>false\<close>;
  the model returns the triples it was called with.
\<close>

fun iter_until :: "('a \<Rightarrow> bool) \<Rightarrow> 'a list \<Rightarrow> 'a list" where
  "iter_until cb [] = []"
| "iter_until cb (t # ts) = t # (if cb t then iter_until cb ts else [])"

definition relay_iter_types :: "(type_tag \<times> type_tag \<times> type_tag \<Rightarrow> bool) \<Rightarrow> (type_tag \<times> type_tag \<times> type_tag) list" where
  "relay_iter_types cb = iter_until cb relay_types"

subsection \<open>Sending and polling (lines 112--168)\<close>

text \<open>\<open>send(Action)\<close>: one event per action; \<open>Stats\<close> hits \<open>unimplemented!()\<close>.\<close>

definition relay_send :: "action \<Rightarrow> 'u relay \<Rightarrow> ((unit, action send_error) result \<times> 'u relay) may_panic" where
  "relay_send a r =
     (case a of
        Init \<Rightarrow> Inr (Ok (), r\<lparr>relay_queue := relay_queue r @ [Ready]\<rparr>)
      | Close \<Rightarrow> Inr (Ok (), r\<lparr>relay_queue := relay_queue r @ [Exited]\<rparr>)
      | Flush \<Rightarrow> Inr (Ok (), r\<lparr>relay_queue := relay_queue r @ [Flushed]\<rparr>)
      | Sync \<Rightarrow> Inr (Ok (), r\<lparr>relay_queue := relay_queue r @ [Synchronized (Ok ())]\<rparr>)
      | StatsAction \<Rightarrow> Inl (Panic ''not implemented''))"

text \<open>
  \<open>send_msg\<close>: a \<open>Msg<i16>\<close> is answered with \<open>Msg(9u8)\<close>, every other message with
  \<open>()\<close>; the message's tag is the tag of its runtime type.
\<close>

definition relay_send_msg ::
  "mid \<Rightarrow> rval dyn \<Rightarrow> rval dyn relay \<Rightarrow> (unit, rval dyn send_error) result \<times> rval dyn relay" where
  "relay_send_msg m msg r =
     (if tag_of (dyn_ty msg) = msg_tag (prim ''i16'')
      then (Ok (), r\<lparr>relay_queue := relay_queue r @ [Response m (Ok (into_boxed (msg_rty (prim ''u8'')) (MsgV (U8V 9))))]\<rparr>)
      else (Ok (), r\<lparr>relay_queue := relay_queue r @ [Response m (Ok (into_boxed (prim ''()'') UnitV))]\<rparr>))"

text \<open>\<open>poll_events\<close>: \<open>Pending\<close> (\<open>None\<close>) on an empty queue, else the oldest event.\<close>

definition relay_poll_events :: "'u relay \<Rightarrow> 'u event option \<times> 'u relay" where
  "relay_poll_events r =
     (case relay_queue r of
        [] \<Rightarrow> (None, r)
      | ev # q \<Rightarrow> (Some ev, r\<lparr>relay_queue := q\<rparr>))"

text \<open>A sequence of calls on the relay, as the bus makes them.\<close>

datatype relay_op = OpAction action | OpMsg mid "rval dyn"

fun relay_run :: "relay_op list \<Rightarrow> rval dyn relay \<Rightarrow> rval dyn relay may_panic" where
  "relay_run [] r = Inr r"
| "relay_run (OpAction a # ops) r =
     (case relay_send a r of Inl p \<Rightarrow> Inl p | Inr (_, r') \<Rightarrow> relay_run ops r')"
| "relay_run (OpMsg m msg # ops) r = relay_run ops (snd (relay_send_msg m msg r))"

subsection \<open>The test's local receiver (lines 14--45, 178--186)\<close>

text \<open>\<open>enum Error { Error(anyhow::Error) }\<close>, the \<open>anyhow\<close> box holding the bus error.\<close>

datatype test_error = TestError "(rval, unit) error"

text \<open>\<open>impl From<error::Error<M>> for Error\<close> (lines 20--24): \<open>Self::Error(err.into())\<close>.\<close>

definition test_error_from :: "(rval, unit) error \<Rightarrow> test_error" where
  "test_error_from err = TestError err"

text \<open>\<open>AsyncHandler<Msg<i32>> for TmpReceiver\<close> (lines 31--45): \<open>handle\<close> and
  \<open>sync\<close> print and return \<open>Ok(())\<close>.\<close>

definition tmp_handle :: "32 word \<Rightarrow> (unit, test_error) result" where
  "tmp_handle msg = Ok ()"

definition tmp_sync :: "(unit, test_error) result" where
  "tmp_sync = Ok ()"

text \<open>The types of the receiver \<open>subscribe_async::<Msg<i32>>\<close> builds for \<open>TmpReceiver\<close>.\<close>

definition tmp_types :: wrapper_types where
  "tmp_types = \<lparr>msg_ty = msg_rty (prim ''i32''), resp_ty = prim ''()'', err_ty = RTy ''Error'' []\<rparr>"

subsection \<open>Observations\<close>

text \<open>The notify cell whose firing completes the future of a lifecycle action.\<close>

fun action_signal :: "action \<Rightarrow> receiver_context \<Rightarrow> notify" where
  "action_signal Init = ready"
| "action_signal Flush = flushed"
| "action_signal Sync = synchronized"
| "action_signal Close = closed"
| "action_signal StatsAction = response"

text \<open>The ids of the responses in a list of events, and of the messages in a list of calls.\<close>

fun response_ids :: "'u event list \<Rightarrow> mid list" where
  "response_ids [] = []"
| "response_ids (Response m _ # evs) = m # response_ids evs"
| "response_ids (_ # evs) = response_ids evs"

fun msg_ids :: "relay_op list \<Rightarrow> mid list" where
  "msg_ids [] = []"
| "msg_ids (OpMsg m _ # ops) = m # msg_ids ops"
| "msg_ids (OpAction _ # ops) = msg_ids ops"

subsection \<open>Lemmas\<close>

lemma msg_derived:
  "derive_message msg_input = Inr
     \<lparr>mi_tag = \<lparr>ti_generics = [GType ''F'' [''MessageBounds'', ''Clone'', ''messagebus::TypeTagged'']],
                ti_class = ''Msg'', ti_body = TagFormat ''Msg<{}>'' [''F'']\<rparr>,
      mi_generics = [GType ''F'' [''MessageBounds'', ''Clone'', ''messagebus::MessageBounds'']],
      mi_class = ''Msg'', mi_shared = NoSharedImpl, mi_clone = NoCloneImpl\<rparr>"
  by (simp add: msg_input_def derive_message_def scan_init_def tags_default_def type_tag_part_def tag_name_def
      shared_part_def clone_part_def)

lemma msg_tag_eq: "msg_tag F = ''Msg<'' @ tag_of F @ ''>''"
  by (simp add: msg_tag_def msg_derived)

lemma error_tag_eq: "error_tag = ''Error''"
  by (simp add: error_tag_def error_input_def derive_error_def scan_init_def type_tag_part_def tag_name_def)

lemma response_ids_append: "response_ids (xs @ ys) = response_ids xs @ response_ids ys"
  by (induction xs rule: response_ids.induct) simp_all

lemma relay_send_ok:
  "a \<noteq> StatsAction \<Longrightarrow>
   \<exists>ev. relay_send a r = Inr (Ok (), r\<lparr>relay_queue := relay_queue r @ [ev]\<rparr>) \<and> response_ids [ev] = []"
  by (cases a) (simp_all add: relay_send_def, (rule exI, rule conjI, rule refl, simp)+)

lemma relay_send_msg_ok:
  "\<exists>res. relay_send_msg m msg r = (Ok (), r\<lparr>relay_queue := relay_queue r @ [Response m res]\<rparr>)"
  unfolding relay_send_msg_def by (cases "tag_of (dyn_ty msg) = msg_tag (prim ''i16'')") (simp_all, blast+)

lemmas relay_tag_simps = msg_tag_eq error_tag_eq prim_def

subsection \<open>Properties of the relay\<close>

text \<open>
  The relay contract's first half holds: every triple \<open>iter_types\<close> advertises
  (\<open>Msg<i16>\<close> to \<open>Msg<u8>\<close>; \<open>Msg<i32>\<close> to \<open>Msg<()>\<close> or \<open>Msg<i64>\<close>; with
  error \<open>Error\<close>) is accepted by \<open>accept\<close>.
\<close>

theorem relay_advertised_accepted:
  "(m, r, e) \<in> set relay_types \<Longrightarrow> relay_accept m (Some r) (Some e)"
  by (auto simp: relay_types_def relay_accept_def relay_tag_simps)

theorem relay_advertised_accepted_witness:
  "relay_accept ''Msg<i32>'' (Some ''Msg<i64>'') (Some ''Error'')"
  using relay_advertised_accepted [of "''Msg<i32>''" "''Msg<i64>''" "''Error''"]
  by (simp add: relay_types_def relay_tag_simps)

text \<open>
  What \<open>accept\<close> decides: only the response type is checked, and only for
  \<open>Msg<i16>\<close> and \<open>Msg<i32>\<close>; the error type is ignored and every other message
  type is accepted, advertised or not.
\<close>

theorem relay_accept_exact:
  "relay_accept m r e \<longleftrightarrow>
     (m = ''Msg<i16>'' \<longrightarrow> r = None \<or> r = Some ''Msg<u8>'') \<and>
     (m = ''Msg<i32>'' \<longrightarrow> r = None \<or> r = Some ''Msg<i64>'' \<or> r = Some ''Msg<()>'')"
  by (auto simp: relay_accept_def relay_tag_simps split: option.splits)

theorem relay_accept_exact_witness:
  "relay_accept ''Msg<u64>'' (Some ''Msg<i16>'') (Some ''Error'') \<and> \<not> relay_accept ''Msg<i16>'' (Some ''()'') None"
  using relay_accept_exact [of "''Msg<u64>''" "Some ''Msg<i16>''" "Some ''Error''"]
        relay_accept_exact [of "''Msg<i16>''" "Some ''()''" None]
  by simp

text \<open>
  The relay answers each lifecycle action with one event, and the receiver's
  event loop turns that event into the firing of the notify that the action's future
  awaits (\<open>Init\<close>: \<open>ready\<close>, \<open>Flush\<close>: \<open>flushed\<close>, \<open>Sync\<close>: \<open>synchronized\<close>,
  \<open>Close\<close>: \<open>closed\<close>); the \<open>Stats\<close> action panics.
\<close>

theorem relay_action_reply_completes:
  assumes "relay_send a r = Inr (res, r')"
  shows "\<exists>ev. res = Ok () \<and> relay_queue r' = relay_queue r @ [ev] \<and>
           (\<forall>w. \<exists>ctl w'. handle_event R E ev w = Inr (ctl, w') \<and>
              n_calls (action_signal a (rw_context w')) = Suc (n_calls (action_signal a (rw_context w))))"
  using assms
  by (cases a) (auto simp: relay_send_def update_context_def notify_waiters_def)

theorem relay_action_reply_completes_witness:
  "\<exists>ctl w'. handle_event (prim ''u8'') (prim ''Error'') Exited example_wrapper = Inr (ctl, w') \<and>
     n_calls (closed (rw_context w')) = Suc (n_calls (closed (rw_context example_wrapper)))"
proof -
  have "relay_send Close \<lparr>relay_queue = []\<rparr> = Inr (Ok (), \<lparr>relay_queue = [Exited :: int event]\<rparr>)"
    by (simp add: relay_send_def)
  from relay_action_reply_completes [OF this, of "prim ''u8''" "prim ''Error''"] show ?thesis by auto
qed

text \<open>
  A a run of calls without a \<open>Stats\<close> action never panics, adds one event per call,
  and answers the messages with exactly one \<open>Response\<close> each, carrying their ids in
  the order they were sent.
\<close>

theorem relay_run_responses:
  assumes "OpAction StatsAction \<notin> set ops"
  shows "\<exists>r'. relay_run ops r = Inr r' \<and>
           response_ids (relay_queue r') = response_ids (relay_queue r) @ msg_ids ops \<and>
           length (relay_queue r') = length (relay_queue r) + length ops"
  using assms
proof (induction ops arbitrary: r)
  case Nil
  then show ?case by simp
next
  case (Cons op ops)
  show ?case
  proof (cases op)
    case (OpAction a)
    with Cons.prems have "a \<noteq> StatsAction" by auto
    then obtain ev where ev: "relay_send a r = Inr (Ok (), r\<lparr>relay_queue := relay_queue r @ [ev]\<rparr>)"
      "response_ids [ev] = []" by (metis relay_send_ok)
    from Cons.prems OpAction have "OpAction StatsAction \<notin> set ops" by simp
    from Cons.IH [OF this, of "r\<lparr>relay_queue := relay_queue r @ [ev]\<rparr>"] ev OpAction show ?thesis
      by (auto simp: response_ids_append)
  next
    case (OpMsg m msg)
    obtain res where res: "relay_send_msg m msg r = (Ok (), r\<lparr>relay_queue := relay_queue r @ [Response m res]\<rparr>)"
      using relay_send_msg_ok by blast
    from Cons.prems OpMsg have "OpAction StatsAction \<notin> set ops" by simp
    from Cons.IH [OF this, of "r\<lparr>relay_queue := relay_queue r @ [Response m res]\<rparr>"] res OpMsg show ?thesis
      by (auto simp: response_ids_append)
  qed
qed

theorem relay_run_responses_witness:
  "\<exists>r'. relay_run [OpAction Init, OpMsg 3 (into_boxed (msg_rty (prim ''i16'')) (MsgV (I16V 12))), OpAction Close]
           \<lparr>relay_queue = []\<rparr> = Inr r' \<and> response_ids (relay_queue r') = [3] \<and> length (relay_queue r') = 3"
  using relay_run_responses [of "[OpAction Init, OpMsg 3 (into_boxed (msg_rty (prim ''i16'')) (MsgV (I16V 12))), OpAction Close]"
      "\<lparr>relay_queue = []\<rparr>"]
  by (simp add: eval_nat_numeral)

text \<open>
  \<open>send_msg\<close> answers a \<open>Msg<i32>\<close> with a boxed \<open>()\<close>, a response type that
  \<open>iter_types\<close> does not advertise for \<open>Msg<i32>\<close> and that the relay's own
  \<open>accept\<close> rejects.
\<close>

theorem relay_unit_response_rejected:
  "\<exists>b. relay_send_msg m (into_boxed (msg_rty (prim ''i32'')) v) r =
         (Ok (), r\<lparr>relay_queue := relay_queue r @ [Response m (Ok b)]\<rparr>) \<and>
       tag_of (dyn_ty b) = ''()'' \<and>
       \<not> relay_accept (msg_tag (prim ''i32'')) (Some (tag_of (dyn_ty b))) None \<and>
       (msg_tag (prim ''i32''), tag_of (dyn_ty b), error_tag) \<notin> set relay_types"
  by (intro exI [of _ "into_boxed (prim ''()'') UnitV"])
     (simp add: relay_send_msg_def into_boxed_def msg_rty_def relay_accept_def relay_types_def relay_tag_simps)

text \<open>
  The test's request: \<open>send_msg\<close> of \<open>Msg(12i16)\<close> queues a response that the
  next \<open>poll_events\<close> returns and that downcasts to \<open>Msg::<u8>\<close> with value 9.
\<close>

theorem relay_request_answer:
  "\<exists>b. relay_poll_events (snd (relay_send_msg m (into_boxed (msg_rty (prim ''i16'')) (MsgV (I16V 12))) \<lparr>relay_queue = []\<rparr>)) =
         (Some (Response m (Ok b)), \<lparr>relay_queue = []\<rparr>) \<and>
       downcast (msg_rty (prim ''u8'')) b = Inr (MsgV (U8V 9))"
  by (simp add: relay_send_msg_def relay_poll_events_def into_boxed_def downcast_def msg_rty_def relay_tag_simps)

text \<open>
  Which of the test's two receivers takes what: \<open>send(Msg(32i32))\<close> is accepted by
  the local receiver and by the relay (which advertises \<open>Msg<i32>\<close> too), the
  request \<open>Msg(12i16)\<close> for a \<open>Msg<u8>\<close> only by the relay; the local handler
  and its \<open>sync\<close> always succeed.
\<close>

theorem test_receivers_routing:
  "accept tmp_types (msg_tag (prim ''i32'')) None None \<and> relay_accept (msg_tag (prim ''i32'')) None None \<and>
   \<not> accept tmp_types (msg_tag (prim ''i16'')) (Some (msg_tag (prim ''u8''))) None \<and>
   relay_accept (msg_tag (prim ''i16'')) (Some (msg_tag (prim ''u8''))) None \<and>
   tmp_handle v = Ok () \<and> tmp_sync = Ok ()"
  by (simp add: accept_def tmp_types_def msg_rty_def relay_accept_def relay_tag_simps tmp_handle_def tmp_sync_def)

end
