(* ===== verification/Demo_Async.thy ===== *)
theory Demo_Async
  imports Errors "HOL-Library.Multiset"
begin

text \<open>
  The example program \<open>src/examples/demo_async.rs\<close>. Two receivers are registered
  on one bus: \<open>TmpReceiver\<close> handles \<open>f32\<close>, \<open>u16\<close>, \<open>u32\<close>, \<open>i32\<close> and \<open>i16\<close>, each handler
  but the last sending one message of the next type (\<open>bus.send(1u16)\<close>, \<open>2u32\<close>,
  \<open>3i32\<close>, \<open>4i16\<close>), and \<open>TmpReceiver2\<close> handles \<open>i32\<close> (sending \<open>5i16\<close>) and \<open>i16\<close>.
  \<open>main\<close> sends \<open>0f32\<close> once. The bus itself (\<open>Bus::send\<close> broadcasting to every
  subscription of the message's type, spec section 6, and \<open>NoReceivers\<close> when
  there is none, spec section 7) is not under \<open>src/\<close> and is modelled from the spec.
  A handler's \<open>bus.send(..).await?\<close> converts a bus error into the demo's \<open>Error\<close>
  through its \<open>From<error::Error<M>>\<close> impl and returns it.

  The executor may run the spawned handler tasks in any order: a state of
  \<open>demo_step\<close> is the multiset of deliveries not yet handled and the multiset of
  handler invocations done, and a step runs any pending delivery. \<open>demo_drain\<close> is
  one schedule, first in first out.
\<close>

datatype demo_receiver = TmpReceiver | TmpReceiver2

text \<open>The messages of the demo: the Rust primitive type and the value sent.\<close>

datatype demo_msg = VF32 int | VU16 int | VU32 int | VI32 int | VI16 int

fun demo_msg_ty :: "demo_msg \<Rightarrow> rty" where
  "demo_msg_ty (VF32 _) = RTy ''f32'' []"
| "demo_msg_ty (VU16 _) = RTy ''u16'' []"
| "demo_msg_ty (VU32 _) = RTy ''u32'' []"
| "demo_msg_ty (VI32 _) = RTy ''i32'' []"
| "demo_msg_ty (VI16 _) = RTy ''i16'' []"

text \<open>The demo's \<open>Error\<close> enum and its \<open>From<error::Error<M>>\<close> impl (lines 5--15).\<close>

datatype demo_error = DemoError "(demo_msg, unit) error"

definition demo_error_from :: "(demo_msg, unit) error \<Rightarrow> demo_error" where
  "demo_error_from err = DemoError err"

text \<open>A subscription: the receiver, the message type, async or sync, and the queue capacity.\<close>

datatype sub_kind = SubAsync | SubSync

type_synonym subscription = "demo_receiver \<times> rty \<times> sub_kind \<times> nat"

text \<open>The builder chain of \<open>main\<close> (lines 153--165).\<close>

definition demo_subs :: "subscription list" where
  "demo_subs =
     [(TmpReceiver, RTy ''f32'' [], SubAsync, 8), (TmpReceiver, RTy ''u16'' [], SubAsync, 8),
      (TmpReceiver, RTy ''u32'' [], SubAsync, 8), (TmpReceiver, RTy ''i32'' [], SubAsync, 8),
      (TmpReceiver, RTy ''i16'' [], SubAsync, 8),
      (TmpReceiver2, RTy ''i32'' [], SubAsync, 8), (TmpReceiver2, RTy ''i16'' [], SubSync, 8)]"

type_synonym delivery = "demo_receiver \<times> demo_msg"

text \<open>\<open>Bus::send\<close>: one delivery per subscription of the message's type, in registration order.\<close>

definition bus_send :: "subscription list \<Rightarrow> demo_msg \<Rightarrow> (delivery list, (demo_msg, unit) error) result" where
  "bus_send subs m =
     (case [r. (r, T, k, cap) \<leftarrow> subs, T = demo_msg_ty m] of
        [] \<Rightarrow> Err NoReceivers
      | rs \<Rightarrow> Ok (map (\<lambda>r. (r, m)) rs))"

text \<open>
  The bodies of the seven handler impls (lines 20--147): the message a handler sends
  before returning \<open>Ok(())\<close>, if any. A pair without an impl is \<open>None\<close>; the builder
  only subscribes a receiver to a type it has an impl for.
\<close>

datatype handler_body = SendThenOk demo_msg | JustOk

fun demo_handler :: "demo_receiver \<Rightarrow> demo_msg \<Rightarrow> handler_body option" where
  "demo_handler TmpReceiver (VF32 _) = Some (SendThenOk (VU16 1))"
| "demo_handler TmpReceiver (VU16 _) = Some (SendThenOk (VU32 2))"
| "demo_handler TmpReceiver (VU32 _) = Some (SendThenOk (VI32 3))"
| "demo_handler TmpReceiver (VI32 _) = Some (SendThenOk (VI16 4))"
| "demo_handler TmpReceiver (VI16 _) = Some JustOk"
| "demo_handler TmpReceiver2 (VI32 _) = Some (SendThenOk (VI16 5))"
| "demo_handler TmpReceiver2 (VI16 _) = Some JustOk"
| "demo_handler TmpReceiver2 _ = None"

text \<open>
  Running a handler body: \<open>bus.send(m).await?\<close> either dispatches \<open>m\<close> (the new
  deliveries) and the handler returns \<open>Ok(())\<close>, or returns the converted error.
\<close>

fun run_handler :: "subscription list \<Rightarrow> handler_body \<Rightarrow> delivery list \<times> (unit, demo_error) result" where
  "run_handler subs JustOk = ([], Ok ())"
| "run_handler subs (SendThenOk m) =
     (case bus_send subs m of
        Err e \<Rightarrow> ([], Err (demo_error_from e))
      | Ok ds \<Rightarrow> (ds, Ok ()))"

type_synonym invocation = "demo_receiver \<times> demo_msg \<times> (unit, demo_error) result"

text \<open>One handler task run by the executor, in any order.\<close>

inductive demo_step :: "delivery multiset \<times> invocation multiset \<Rightarrow> delivery multiset \<times> invocation multiset \<Rightarrow> bool" where
  run: "d \<in># P \<Longrightarrow> demo_handler (fst d) (snd d) = Some b \<Longrightarrow> run_handler demo_subs b = (ds, res) \<Longrightarrow>
        demo_step (P, D) (P - {#d#} + mset ds, add_mset (fst d, snd d, res) D)"

text \<open>\<open>b.send(0f32).await.unwrap()\<close> in \<open>main\<close> (line 167): the initial deliveries.\<close>

definition demo_main_send :: "(delivery list, (demo_msg, unit) error) result" where
  "demo_main_send = bus_send demo_subs (VF32 0)"

definition demo_start :: "(delivery multiset \<times> invocation multiset) may_panic" where
  "demo_start = (case unwrap demo_main_send of Inl p \<Rightarrow> Inl p | Inr ds \<Rightarrow> Inr (mset ds, {#}))"

text \<open>The state after that send: one delivery of \<open>0f32\<close> to \<open>TmpReceiver\<close>.\<close>

abbreviation demo_s0 :: "delivery multiset \<times> invocation multiset" where
  "demo_s0 \<equiv> ({#(TmpReceiver, VF32 0)#}, {#})"

text \<open>The first-in first-out schedule of the handler tasks.\<close>

partial_function (option) demo_drain :: "delivery list \<Rightarrow> invocation list \<Rightarrow> invocation list option" where
  "demo_drain q acc =
     (case q of
        [] \<Rightarrow> Some acc
      | d # q' \<Rightarrow>
          (case demo_handler (fst d) (snd d) of
             None \<Rightarrow> None
           | Some b \<Rightarrow> (case run_handler demo_subs b of
                          (ds, res) \<Rightarrow> demo_drain (q' @ ds) (acc @ [(fst d, snd d, res)]))))"

text \<open>The nine handler invocations of the demo, every one returning \<open>Ok(())\<close>.\<close>

definition demo_expected :: "invocation multiset" where
  "demo_expected =
     {#(TmpReceiver, VF32 0, Ok ()), (TmpReceiver, VU16 1, Ok ()), (TmpReceiver, VU32 2, Ok ()),
       (TmpReceiver, VI32 3, Ok ()), (TmpReceiver2, VI32 3, Ok ()),
       (TmpReceiver, VI16 4, Ok ()), (TmpReceiver2, VI16 4, Ok ()),
       (TmpReceiver, VI16 5, Ok ()), (TmpReceiver2, VI16 5, Ok ())#}"

text \<open>The termination measure: a message's place in the chain, and the weight of the pending deliveries.\<close>

fun demo_rank :: "demo_msg \<Rightarrow> nat" where
  "demo_rank (VF32 _) = 4"
| "demo_rank (VU16 _) = 3"
| "demo_rank (VU32 _) = 2"
| "demo_rank (VI32 _) = 1"
| "demo_rank (VI16 _) = 0"

definition pending_weight :: "delivery multiset \<Rightarrow> nat" where
  "pending_weight P = sum_mset (image_mset (\<lambda>d. 3 ^ demo_rank (snd d)) P)"

text \<open>
  The invocations a delivery causes, itself included: the tree of handler runs below
  it, cut at depth \<open>n\<close>. Depth \<open>5\<close> is the whole tree: every handler sends a message
  of lower rank, and ranks are below \<open>5\<close>.
\<close>

fun demo_tree :: "nat \<Rightarrow> delivery \<Rightarrow> invocation multiset" where
  "demo_tree 0 d = {#}"
| "demo_tree (Suc n) d =
     (case demo_handler (fst d) (snd d) of
        None \<Rightarrow> {#}
      | Some b \<Rightarrow> (case run_handler demo_subs b of
                   (ds, res) \<Rightarrow> add_mset (fst d, snd d, res) (sum_list (map (demo_tree n) ds))))"




text \<open>
  The invocations still to come from a state: those done, and the trees below the
  pending deliveries. Every step keeps it; it is the invariant of \<open>demo_step\<close>,
  with \<open>demo_pending_ok\<close>: every pending delivery has a handler.
\<close>

definition demo_total :: "delivery multiset \<times> invocation multiset \<Rightarrow> invocation multiset" where
  "demo_total s = snd s + sum_mset (image_mset (demo_tree 5) (fst s))"

definition demo_pending_ok :: "delivery multiset \<Rightarrow> bool" where
  "demo_pending_ok P \<longleftrightarrow> (\<forall>d\<in>#P. demo_handler (fst d) (snd d) \<noteq> None)"

subsection \<open>Lemmas\<close>


lemma demo_handler_children:
  assumes "demo_handler r m = Some b" and "run_handler demo_subs b = (ds, res)"
  shows "pending_weight (mset ds) < 3 ^ demo_rank m \<and> res = Ok () \<and>
         (\<forall>d\<in>set ds. demo_handler (fst d) (snd d) \<noteq> None \<and> demo_rank (snd d) < demo_rank m)"
  using assms by (cases r; cases m) (auto simp: bus_send_def demo_subs_def pending_weight_def)

lemma pending_weight_step:
  assumes "d \<in># P" "pending_weight (mset ds) < 3 ^ demo_rank (snd d)"
  shows "pending_weight (P - {#d#} + mset ds) < pending_weight P"
proof -
  from assms(1) have "P = add_mset d (P - {#d#})" by simp
  then have "pending_weight P = 3 ^ demo_rank (snd d) + pending_weight (P - {#d#})"
    by (metis image_mset_add_mset pending_weight_def sum_mset.add_mset)
  with assms(2) show ?thesis by (simp add: pending_weight_def)
qed

lemma demo_step_weight: "demo_step s t \<Longrightarrow> pending_weight (fst t) < pending_weight (fst s)"
  by (induction rule: demo_step.induct) (use demo_handler_children pending_weight_step in fastforce)

text \<open>
  C31: termination of the demo under every schedule: \<open>demo_step\<close> is well founded,
  so whatever order the executor runs the handler tasks in, every run of the
  demo's handlers is finite (each handler sends a message of lower rank to at most
  two receivers, so the weight of the pending deliveries decreases).
\<close>

theorem demo_handlers_terminate: "wfp (\<lambda>t s. demo_step s t)"
  by (rule wfp_if_convertible_to_nat [where f = "\<lambda>s. pending_weight (fst s)"]) (rule demo_step_weight)

lemma demo_rank_bound: "demo_rank m < 5"
  by (cases m) simp_all

lemma demo_tree_fuel: "demo_rank (snd d) < n \<Longrightarrow> demo_tree (Suc n) d = demo_tree n d"
proof (induction n arbitrary: d)
  case (Suc n)
  show ?case
  proof (cases "demo_handler (fst d) (snd d)")
    case (Some b)
    obtain ds res where r: "run_handler demo_subs b = (ds, res)" by fastforce
    have "\<forall>d'\<in>set ds. demo_rank (snd d') < n"
      using demo_handler_children [OF Some r] Suc.prems by fastforce
    then have m: "map (demo_tree (Suc n)) ds = map (demo_tree n) ds" using Suc.IH by (simp del: demo_tree.simps)
    show ?thesis by (simp only: demo_tree.simps(2) Some r option.case prod.case m)
  qed simp
qed simp

lemma demo_tree_run:
  assumes h: "demo_handler (fst d) (snd d) = Some b" and r: "run_handler demo_subs b = (ds, res)"
  shows "demo_tree 5 d = add_mset (fst d, snd d, res) (sum_list (map (demo_tree 5) ds))"
proof -
  have "\<forall>d'\<in>set ds. demo_rank (snd d') < 4"
    using demo_handler_children [OF h r] demo_rank_bound [of "snd d"] by fastforce
  then have m: "map (demo_tree 4) ds = map (demo_tree 5) ds"
    using demo_tree_fuel [of _ 4] by (simp del: demo_tree.simps add: numeral_eq_Suc)
  have e: "demo_tree 5 d = add_mset (fst d, snd d, res) (sum_list (map (demo_tree 4) ds))"
    using h r by (simp add: numeral_eq_Suc del: demo_tree.simps(1) cong: list.map_cong)
  show ?thesis unfolding e m ..
qed

lemma sum_list_map_mset: "sum_list (map f xs) = sum_mset (image_mset f (mset xs))"
  by (induction xs) simp_all

lemma demo_step_invs:
  assumes "demo_step s t"
  shows "demo_total t = demo_total s \<and> (demo_pending_ok (fst s) \<longrightarrow> demo_pending_ok (fst t))"
  using assms
proof (induction rule: demo_step.induct)
  case (run d P b ds res D)
  from run(1) have P: "P = add_mset d (P - {#d#})" by simp
  have "sum_mset (image_mset (demo_tree 5) P) = demo_tree 5 d + sum_mset (image_mset (demo_tree 5) (P - {#d#}))"
    by (subst P) simp
  then have "demo_total (P, D) = demo_total (P - {#d#} + mset ds, add_mset (fst d, snd d, res) D)"
    using demo_tree_run [OF run(2,3)] by (simp add: demo_total_def sum_list_map_mset)
  moreover have "demo_pending_ok P \<longrightarrow> demo_pending_ok (P - {#d#} + mset ds)"
    using demo_handler_children [OF run(2,3)] by (auto simp: demo_pending_ok_def dest: in_diffD)
  ultimately show ?case by simp
qed

lemma demo_start_eq: "demo_start = Inr demo_s0"
  by (simp add: demo_start_def demo_main_send_def bus_send_def demo_subs_def unwrap_def)

lemma demo_total_start: "demo_total demo_s0 = demo_expected"
  unfolding demo_total_def
  apply (simp add: numeral_eq_Suc)
  apply (simp add: bus_send_def demo_subs_def demo_expected_def add_mset_commute)
  done

lemma demo_reach_invs:
  "demo_step\<^sup>*\<^sup>* demo_s0 s \<Longrightarrow> demo_total s = demo_expected \<and> demo_pending_ok (fst s)"
proof (induction rule: rtranclp_induct)
  case base
  show ?case using demo_total_start by (simp add: demo_pending_ok_def)
next
  case (step s t)
  then show ?case using demo_step_invs by metis
qed

lemma demo_stuck_empty:
  assumes "demo_pending_ok (fst s)" and "\<forall>t. \<not> demo_step s t"
  shows "fst s = {#}"
proof (rule ccontr)
  assume "fst s \<noteq> {#}"
  then obtain d where d: "d \<in># fst s" by blast
  with assms(1) obtain b where b: "demo_handler (fst d) (snd d) = Some b"
    by (auto simp: demo_pending_ok_def)
  obtain ds res where "run_handler demo_subs b = (ds, res)" by fastforce
  with d b have "demo_step (fst s, snd s) (fst s - {#d#} + mset ds, add_mset (fst d, snd d, res) (snd s))"
    by (rule demo_step.run)
  with assms(2) show False by simp
qed

lemma demo_reaches_stuck: "\<exists>t. demo_step\<^sup>*\<^sup>* s t \<and> (\<forall>u. \<not> demo_step t u)"
proof (induction "pending_weight (fst s)" arbitrary: s rule: less_induct)
  case less
  show ?case
  proof (cases "\<exists>u. demo_step s u")
    case True
    then obtain u where su: "demo_step s u" by blast
    with less demo_step_weight obtain t where "demo_step\<^sup>*\<^sup>* u t" "\<forall>v. \<not> demo_step t v" by blast
    with su show ?thesis by (meson converse_rtranclp_into_rtranclp)
  qed blast
qed

text \<open>
  C32: the outcome of \<open>demo_async\<close> does not depend on the schedule: from
  \<open>b.send(0f32)\<close>, the states where no handler task is left to run are exactly one,
  reached by every maximal run: no delivery pending, and the nine invocations of
  \<open>demo_expected\<close> done, every handler returning \<open>Ok(())\<close> (every \<open>bus.send\<close> finds
  a receiver). The values 3, 4 and 5 reach two receivers each.
\<close>

theorem demo_async_outcome:
  "demo_start = Inr demo_s0 \<and>
   (demo_step\<^sup>*\<^sup>* demo_s0 s \<and> (\<forall>t. \<not> demo_step s t) \<longleftrightarrow> s = ({#}, demo_expected))"
proof -
  have "demo_step\<^sup>*\<^sup>* demo_s0 s \<and> (\<forall>t. \<not> demo_step s t) \<longleftrightarrow> s = ({#}, demo_expected)"
  proof
    assume a: "demo_step\<^sup>*\<^sup>* demo_s0 s \<and> (\<forall>t. \<not> demo_step s t)"
    with demo_reach_invs have "demo_total s = demo_expected" "demo_pending_ok (fst s)" by simp_all
    with a demo_stuck_empty have e: "fst s = {#}" by blast
    with \<open>demo_total s = demo_expected\<close> have "snd s = demo_expected" by (simp add: demo_total_def)
    with e show "s = ({#}, demo_expected)" by (simp add: prod_eq_iff)
  next
    assume s: "s = ({#}, demo_expected)"
    obtain t where t: "demo_step\<^sup>*\<^sup>* demo_s0 t" "\<forall>u. \<not> demo_step t u"
      using demo_reaches_stuck by blast
    with demo_reach_invs have "demo_total t = demo_expected" "demo_pending_ok (fst t)" by simp_all
    moreover from demo_stuck_empty [OF this(2) t(2)] have "fst t = {#}" .
    ultimately have "t = s" using s by (simp add: demo_total_def prod_eq_iff)
    with t show "demo_step\<^sup>*\<^sup>* demo_s0 s \<and> (\<forall>t. \<not> demo_step s t)" by simp
  qed
  with demo_start_eq show ?thesis by blast
qed

text \<open>
  The first-in first-out schedule returns: on every queue of deliveries that
  have handlers, \<open>demo_drain\<close> ends (it is not \<open>None\<close>) and its invocations are
  those done before and the trees below the queued deliveries.
\<close>

theorem demo_drain_returns:
  assumes "\<forall>d\<in>set q. demo_handler (fst d) (snd d) \<noteq> None"
  shows "\<exists>r. demo_drain q acc = Some r \<and> mset r = mset acc + sum_list (map (demo_tree 5) q)"
  using assms
proof (induction "pending_weight (mset q)" arbitrary: q acc rule: less_induct)
  case less
  show ?case
  proof (cases q)
    case Nil
    then show ?thesis by (simp add: demo_drain.simps)
  next
    case (Cons d q')
    with less.prems obtain b where b: "demo_handler (fst d) (snd d) = Some b" by auto
    obtain ds res where r: "run_handler demo_subs b = (ds, res)" by fastforce
    note ch = demo_handler_children [OF b r]
    have "mset (q' @ ds) = mset q - {#d#} + mset ds" using Cons by simp
    then have lt: "pending_weight (mset (q' @ ds)) < pending_weight (mset q)"
      using pending_weight_step [of d "mset q" ds] ch Cons by simp
    have ok: "\<forall>d\<in>set (q' @ ds). demo_handler (fst d) (snd d) \<noteq> None" using less.prems ch Cons by auto
    from less.hyps [OF lt ok] obtain r' where
      r': "demo_drain (q' @ ds) (acc @ [(fst d, snd d, res)]) = Some r'"
          "mset r' = mset (acc @ [(fst d, snd d, res)]) + sum_list (map (demo_tree 5) (q' @ ds))" by blast
    have "demo_drain q acc = Some r'" using Cons b r r'(1) by (simp add: demo_drain.simps)
    moreover have "mset r' = mset acc + sum_list (map (demo_tree 5) q)"
      using r'(2) Cons demo_tree_run [OF b r] by (simp add: add_ac)
    ultimately show ?thesis by blast
  qed
qed

theorem demo_drain_returns_witness:
  "\<exists>r. demo_drain [(TmpReceiver, VF32 0)] [] = Some r \<and>
       mset r = mset [] + sum_list (map (demo_tree 5) [(TmpReceiver, VF32 0)])"
  using demo_drain_returns [of "[(TmpReceiver, VF32 0)]" "[]"] by simp

end
