(* ===== verification/Demo_Backpressure.thy ===== *)
theory Demo_Backpressure
  imports Admission_Live
begin

text \<open>
  The example program \<open>src/examples/demo_backpressure.rs\<close>: one receiver of
  \<open>MsgF32\<close> subscribed with \<open>limit = 1\<close> (\<open>subscribe_async(1, ..)\<close>, a buffer of one
  message handled one at a time), whose handler sleeps a second before answering,
  and a single producer, \<open>main\<close>, that sends eleven messages one after the other,
  each \<open>b.send(..).await.unwrap()\<close> finishing before the next starts. A send is
  \<open>Receiver::reserve\<close> and \<open>Receiver::send\<close> of one task of theory \<open>Admission\<close>;
  the producer is that one task, restarted for the next message once it is done.
  \<open>unwrap()\<close> panics on a failed send, so the runs of the program that go on are the
  runs of \<open>adm_step_ok\<close>, where every send is accepted.
\<close>

text \<open>The subscription's limit (line 45) and the number of sends of \<open>main\<close> (lines 54--85).\<close>

definition bp_limit :: u64 where
  "bp_limit = 1"

definition bp_sends :: nat where
  "bp_sends = 11"

record bp_state =
  bp_adm :: adm_state
  bp_started :: nat

definition bp_init :: bp_state where
  "bp_init = \<lparr>bp_adm = adm_init 1 bp_limit, bp_started = 1\<rparr>"

text \<open>
  A step of the program: a step of the admission protocol (the producer's reserve and
  send, the handler's answer, the event loop's decrement and notify), or \<open>main\<close>
  moving on to its next \<open>send\<close> once the previous one has returned.
\<close>

inductive bp_step :: "bp_state \<Rightarrow> bp_state \<Rightarrow> bool" where
  bp_run: "adm_step_ok (bp_adm s) t \<Longrightarrow> bp_step s (s\<lparr>bp_adm := t\<rparr>)"
| bp_next: "rpcs (bp_adm s) = [RDone] \<Longrightarrow> bp_started s < bp_sends \<Longrightarrow>
            bp_step s (s\<lparr>bp_adm := (bp_adm s)\<lparr>rpcs := [RStart]\<rparr>, bp_started := Suc (bp_started s)\<rparr>)"

definition bp_inv :: "bp_state \<Rightarrow> bool" where
  "bp_inv s \<longleftrightarrow>
     adm_inv (bp_adm s) \<and> live_inv (bp_adm s) \<and> limit (actx (bp_adm s)) = bp_limit \<and>
     length (rpcs (bp_adm s)) = 1 \<and> bp_started s \<le> bp_sends"

subsection \<open>Lemmas\<close>

lemma wake_length: "length (wake w ps) = length ps"
  by (cases w) simp_all

lemma adm_step_length: "adm_step s t \<Longrightarrow> length (rpcs t) = length (rpcs s)"
  by (induction rule: adm_step.induct) (simp_all add: wake_length)

lemma bp_inv_init: "bp_inv bp_init"
  using adm_inv_init [of 1 bp_limit] live_inv_init [of 1 bp_limit]
  by (simp add: bp_inv_def bp_init_def bp_sends_def) (simp add: adm_init_def receiver_context_new_def)

lemma waiting_set_single: "waiting_set [p] = (if p = RWaiting then {0} else {})"
  by (auto simp: waiting_set_def)

lemma bp_next_inv:
  assumes "bp_inv s" "rpcs (bp_adm s) = [RDone]" "bp_started s < bp_sends"
  shows "bp_inv (s\<lparr>bp_adm := (bp_adm s)\<lparr>rpcs := [RStart]\<rparr>, bp_started := Suc (bp_started s)\<rparr>)"
  using assms by (clarsimp simp: bp_inv_def adm_inv_def live_inv_def holders_def waiting_set_single)

lemma bp_run_inv:
  assumes ok: "adm_step_ok (bp_adm s) t" and inv: "bp_inv s"
  shows "bp_inv (s\<lparr>bp_adm := t\<rparr>)"
proof -
  from ok have st: "adm_step (bp_adm s) t" by (simp add: adm_step_ok_def)
  from inv have i: "adm_inv (bp_adm s)" "live_inv (bp_adm s)" "0 < limit (actx (bp_adm s))"
    by (simp_all add: bp_inv_def bp_limit_def)
  have "adm_inv t" using adm_step_inv [OF st i(1)] .
  moreover have "live_inv t" using adm_step_ok_live_inv [OF ok i] .
  moreover have "limit (actx t) = limit (actx (bp_adm s))" using adm_step_limit [OF st] .
  moreover have "length (rpcs t) = length (rpcs (bp_adm s))" using adm_step_length [OF st] .
  ultimately show ?thesis using inv by (simp add: bp_inv_def)
qed

lemma bp_step_inv: "bp_step s t \<Longrightarrow> bp_inv s \<Longrightarrow> bp_inv t"
  by (induction rule: bp_step.induct) (simp_all add: bp_run_inv bp_next_inv)

lemma bp_reach_inv: "bp_step\<^sup>*\<^sup>* bp_init s \<Longrightarrow> bp_inv s"
  by (induction rule: rtranclp_induct) (simp_all add: bp_inv_init bp_step_inv)

lemma bp_lift: "adm_step_ok\<^sup>*\<^sup>* (bp_adm s) t \<Longrightarrow> bp_step\<^sup>*\<^sup>* s (s\<lparr>bp_adm := t\<rparr>)"
proof (induction rule: rtranclp_induct)
  case (step u v)
  have "bp_step (s\<lparr>bp_adm := u\<rparr>) ((s\<lparr>bp_adm := u\<rparr>)\<lparr>bp_adm := v\<rparr>)"
    using step(2) by (intro bp_run) simp
  with step(3) show ?case by simp
qed simp



lemma bp_star_inv: "bp_step\<^sup>*\<^sup>* s t \<Longrightarrow> bp_inv s \<Longrightarrow> bp_inv t"
  by (induction rule: rtranclp_induct) (simp_all add: bp_step_inv)

lemma bp_drain:
  assumes "bp_inv s"
  shows "\<exists>u. bp_step\<^sup>*\<^sup>* s (s\<lparr>bp_adm := u\<rparr>) \<and> adm_final u \<and> bp_inv (s\<lparr>bp_adm := u\<rparr>)"
proof -
  from assms have "adm_inv (bp_adm s)" "live_inv (bp_adm s)" "0 < limit (actx (bp_adm s))"
    by (simp_all add: bp_inv_def bp_limit_def)
  with adm_reaches_final obtain u where u: "adm_step_ok\<^sup>*\<^sup>* (bp_adm s) u" "adm_final u" by blast
  from bp_lift [OF u(1)] have "bp_step\<^sup>*\<^sup>* s (s\<lparr>bp_adm := u\<rparr>)" .
  with u(2) bp_star_inv [OF this assms] show ?thesis by blast
qed

lemma bp_final_done: "bp_inv s \<Longrightarrow> adm_final (bp_adm s) \<Longrightarrow> rpcs (bp_adm s) = [RDone]"
  by (cases "rpcs (bp_adm s)") (auto simp: bp_inv_def adm_final_def)

lemma bp_reaches_done:
  "bp_inv s \<Longrightarrow> \<exists>t. bp_step\<^sup>*\<^sup>* s t \<and> bp_started t = bp_sends \<and> adm_final (bp_adm t) \<and> bp_inv t"
proof (induction "bp_sends - bp_started s" arbitrary: s)
  case 0
  with bp_drain [OF 0(2)] show ?case by (fastforce simp: bp_inv_def)
next
  case (Suc n s)
  from bp_drain [OF Suc(3)] obtain u where
    u: "bp_step\<^sup>*\<^sup>* s (s\<lparr>bp_adm := u\<rparr>)" "adm_final u" "bp_inv (s\<lparr>bp_adm := u\<rparr>)" by blast
  let ?t1 = "s\<lparr>bp_adm := u\<rparr>"
  have d: "rpcs (bp_adm ?t1) = [RDone]" using bp_final_done [OF u(3)] u(2) by simp
  have lt: "bp_started ?t1 < bp_sends" using Suc(2) by simp
  let ?t2 = "?t1\<lparr>bp_adm := (bp_adm ?t1)\<lparr>rpcs := [RStart]\<rparr>, bp_started := Suc (bp_started ?t1)\<rparr>"
  have st: "bp_step ?t1 ?t2" using d lt by (rule bp_next)
  have i2: "bp_inv ?t2" using bp_next_inv [OF u(3) d lt] .
  have "n = bp_sends - bp_started ?t2" using Suc(2) by simp
  from Suc(1) [OF this i2] obtain t where
    "bp_step\<^sup>*\<^sup>* ?t2 t" "bp_started t = bp_sends" "adm_final (bp_adm t)" "bp_inv t" by blast
  moreover have "bp_step\<^sup>*\<^sup>* s ?t2" using u(1) st by (rule rtranclp.rtrancl_into_rtrancl)
  ultimately show ?case by (meson rtranclp_trans)
qed

end
