(* ===== verification/Receiver_Api.thy ===== *)
theory Receiver_Api
  imports Wrapper
begin

text \<open>
  The constructor and the delegating accessors of \<open>src/src/receiver.rs\<close>:
  \<open>Receiver::new\<close> (lines 667--695), the \<open>ReceiverTrait\<close> methods of
  \<open>ReceiverWrapper\<close> that only read the context or panic (lines 371--373,
  401--415, 441--444), and the \<open>Receiver\<close> methods that forward to them (lines
  707--720, 733--736, 954--958). The \<open>sharded_slab\<close> configuration \<open>SlabCfg\<close> fixes
  the slab's slot and generation counts, which the library derives from its
  constants; they are parameters here.
\<close>

text \<open>\<open>Receiver::new::<M, R, E, S>(limit, inner)\<close>: no waiter, no channel yet.\<close>

definition receiver_new :: "u64 \<Rightarrow> wrapper_types \<Rightarrow> 'u strategy \<Rightarrow> nat \<Rightarrow> nat \<Rightarrow> 'u handle" where
  "receiver_new lim T inner ns ng =
     \<lparr>h_types = T,
      h_wrapper = \<lparr>rw_context = receiver_context_new lim, waiters = slab_new ns ng,
                   chans = (\<lambda>_. ChTxDropped), next_chan = 0\<rparr>,
      h_strategy = inner\<rparr>"

definition receiver_accept :: "'u handle \<Rightarrow> type_tag \<Rightarrow> type_tag option \<Rightarrow> type_tag option \<Rightarrow> bool" where
  "receiver_accept h = accept (h_types h)"

definition receiver_iter_types :: "'u handle \<Rightarrow> (type_tag \<times> type_tag \<times> type_tag) list" where
  "receiver_iter_types h = iter_types (h_types h)"

definition wrapper_need_flush :: "'u wrapper \<Rightarrow> bool" where
  "wrapper_need_flush w = need_flush (rw_context w)"

definition receiver_need_flush :: "'u handle \<Rightarrow> bool" where
  "receiver_need_flush h = wrapper_need_flush (h_wrapper h)"

definition receiver_is_ready :: "'u handle \<Rightarrow> bool" where
  "receiver_is_ready h = ready_flag (rw_context (h_wrapper h))"

definition receiver_is_init_sent :: "'u handle \<Rightarrow> bool" where
  "receiver_is_init_sent h = init_sent (rw_context (h_wrapper h))"

definition receiver_reserve_notify :: "'u handle \<Rightarrow> notify" where
  "receiver_reserve_notify h = response (rw_context (h_wrapper h))"

text \<open>\<open>ReceiverTrait::stats\<close> of \<open>ReceiverWrapper\<close>: \<open>unimplemented!()\<close>.\<close>

definition wrapper_stats :: "'u handle \<Rightarrow> stats may_panic" where
  "wrapper_stats h = Inl (Panic ''not implemented'')"

text \<open>\<open>Receiver::try_reserve\<close>: the wrapper's \<open>try_reserve\<close> on the shared context.\<close>

definition receiver_try_reserve :: "'u handle \<Rightarrow> permit option \<times> 'u handle" where
  "receiver_try_reserve h =
     (case try_reserve (rw_context (h_wrapper h)) of
        None \<Rightarrow> (None, h)
      | Some (p, c) \<Rightarrow> (Some p, h\<lparr>h_wrapper := (h_wrapper h)\<lparr>rw_context := c\<rparr>\<rparr>))"

text \<open>A caller that reserves \<open>k\<close> times in a row and keeps every permit it gets.\<close>

fun try_reserve_n :: "nat \<Rightarrow> 'u handle \<Rightarrow> permit option list \<times> 'u handle" where
  "try_reserve_n 0 h = ([], h)"
| "try_reserve_n (Suc k) h =
     (let (p, h') = receiver_try_reserve h; (ps, h'') = try_reserve_n k h' in (p # ps, h''))"

abbreviation handle_processing :: "'u handle \<Rightarrow> u64" where
  "handle_processing h \<equiv> processing (rw_context (h_wrapper h))"

abbreviation handle_limit :: "'u handle \<Rightarrow> u64" where
  "handle_limit h \<equiv> limit (rw_context (h_wrapper h))"

subsection \<open>Lemmas\<close>

lemma receiver_try_reserve_step:
  "receiver_try_reserve h =
     (if handle_processing h < handle_limit h
      then (Some \<lparr>fuse = False\<rparr>,
            h\<lparr>h_wrapper := (h_wrapper h)\<lparr>rw_context := (rw_context (h_wrapper h))\<lparr>processing := handle_processing h + 1\<rparr>\<rparr>\<rparr>)
      else (None, h))"
  by (simp add: receiver_try_reserve_def try_reserve_cases)

lemma try_reserve_n_count:
  assumes "unat (handle_processing h) \<le> unat (handle_limit h)"
  shows "fst (try_reserve_n k h) =
           map (\<lambda>i. if unat (handle_processing h) + i < unat (handle_limit h) then Some \<lparr>fuse = False\<rparr> else None) [0..<k] \<and>
         unat (handle_processing (snd (try_reserve_n k h))) = min (unat (handle_limit h)) (unat (handle_processing h) + k) \<and>
         handle_limit (snd (try_reserve_n k h)) = handle_limit h"
  using assms
proof (induction k arbitrary: h)
  case (Suc k)
  show ?case
  proof (cases "handle_processing h < handle_limit h")
    case True
    let ?h' = "snd (receiver_try_reserve h)"
    have u: "unat (handle_processing ?h') = Suc (unat (handle_processing h))"
      using True by (simp add: receiver_try_reserve_step unat_incr_below)
    have l: "handle_limit ?h' = handle_limit h" using True by (simp add: receiver_try_reserve_step)
    have lt: "unat (handle_processing h) < unat (handle_limit h)" using True by (simp add: word_less_nat_alt)
    with u l have "unat (handle_processing ?h') \<le> unat (handle_limit ?h')" by simp
    note IH = Suc.IH [OF this]
    show ?thesis
      using True IH u l lt
      by (simp add: receiver_try_reserve_step map_upt_Suc split_def del: upt_Suc)
  next
    case False
    then have "unat (handle_processing h) = unat (handle_limit h)"
      using Suc.prems by (simp add: word_less_nat_alt)
    with False Suc.IH [OF Suc.prems] show ?thesis
      by (simp add: receiver_try_reserve_step map_upt_Suc split_def del: upt_Suc)
  qed
qed simp

subsection \<open>Properties\<close>

text \<open>
  C30: a receiver fresh from \<open>Receiver::new\<close> hands out exactly \<open>limit\<close> permits to
  a caller that keeps them: of \<open>k\<close> calls of \<open>try_reserve\<close> in a row the first
  \<open>limit\<close> return an unfused permit and every later one \<open>None\<close>, and \<open>processing\<close>
  ends at \<open>min limit k\<close> (no wrap of the \<open>u64\<close> counter). The new receiver is not
  ready, has not sent \<open>Init\<close> and needs no flush.
\<close>

theorem fresh_receiver_reserves_limit:
  "fst (try_reserve_n k (receiver_new l T st ns ng)) =
     map (\<lambda>i. if i < unat l then Some \<lparr>fuse = False\<rparr> else None) [0..<k] \<and>
   unat (handle_processing (snd (try_reserve_n k (receiver_new l T st ns ng)))) = min (unat l) k \<and>
   \<not> receiver_is_ready (receiver_new l T st ns ng) \<and> \<not> receiver_is_init_sent (receiver_new l T st ns ng) \<and>
   \<not> receiver_need_flush (receiver_new l T st ns ng)"
  using try_reserve_n_count [of "receiver_new l T st ns ng" k]
  by (simp add: receiver_new_def receiver_context_new_def receiver_is_ready_def receiver_is_init_sent_def
      receiver_need_flush_def wrapper_need_flush_def)

end
