(* ===== verification/Waiters_Typing.thy ===== *)
theory Waiters_Typing
  imports Receiver_Api
begin

text \<open>
  Type soundness of response delivery. The oneshot channel a requester awaits has a
  static type, fixed by the \<open>add_response_waiter*\<close> function it called: a typed
  \<open>Result<R, _>\<close> or a boxed \<open>Result<Box<dyn Message>, _>\<close>, with the error side
  \<open>Error<(), E>\<close> or \<open>Error\<close> (whose \<open>E\<close> is \<open>VoidError\<close>, so it holds no typed
  \<open>Other\<close>). The model's channels are untyped; \<open>chan_env\<close> records the static type
  of each, as a typing environment, and \<open>wrapper_typed\<close> states that every value
  sent on a channel has its channel's type and every waiter in the slab is the variant
  its channel was created for. \<open>wstep\<close> is the life of a wrapper as the requesters
  and the event loop see it: registrations, responses, dropped response futures.
\<close>

datatype reply_kind = KTyped bool | KBoxed bool

fun waiter_kind :: "waiter \<Rightarrow> reply_kind" where
  "waiter_kind (WithErrorType _) = KTyped True"
| "waiter_kind (WithoutErrorType _) = KTyped False"
| "waiter_kind (Boxed _) = KBoxed False"
| "waiter_kind (BoxedWithError _) = KBoxed True"

definition err_fits :: "bool \<Rightarrow> (unit, 'u) error \<Rightarrow> bool" where
  "err_fits named e \<longleftrightarrow> named \<or> void_typed e"

fun reply_fits :: "rty \<Rightarrow> reply_kind \<Rightarrow> 'u reply \<Rightarrow> bool" where
  "reply_fits R (KTyped b) (RTyped r) = (case r of Ok _ \<Rightarrow> True | Err e \<Rightarrow> err_fits b e)"
| "reply_fits R (KBoxed b) (RBoxed r) = (case r of Ok x \<Rightarrow> dyn_ty x = R | Err e \<Rightarrow> err_fits b e)"
| "reply_fits R _ _ = False"

type_synonym chan_env = "nat \<Rightarrow> reply_kind"

definition wrapper_typed :: "rty \<Rightarrow> chan_env \<Rightarrow> 'u wrapper \<Rightarrow> bool" where
  "wrapper_typed R \<Gamma> w \<longleftrightarrow>
     (\<forall>ch v. chans w ch = ChSent v \<longrightarrow> reply_fits R (\<Gamma> ch) v) \<and>
     (\<forall>x\<in>set (slots (waiters w)). \<forall>wt. snd x = Some wt \<longrightarrow>
        \<Gamma> (waiter_chan wt) = waiter_kind wt \<and> waiter_chan wt < next_chan w)"

inductive wstep :: "rty \<Rightarrow> rty \<Rightarrow> chan_env \<times> 'u wrapper \<Rightarrow> chan_env \<times> 'u wrapper \<Rightarrow> bool" where
  register: "V \<in> waiter_variants \<Longrightarrow> add_response_waiter_gen (\<lambda>c. insert_waiter (V c)) w = Ok ((m, ch), w') \<Longrightarrow>
             wstep R E (\<Gamma>, w) (\<Gamma>(ch := waiter_kind (V ch)), w')"
| respond: "wrapper_response R E m resp w = Inr w' \<Longrightarrow> wstep R E (\<Gamma>, w) (\<Gamma>, w')"
| drop: "wstep R E (\<Gamma>, w) (\<Gamma>, drop_reply_future ch w)"

text \<open>The type of the response future the requester awaits on a channel of a given kind.\<close>

fun kind_boxed :: "reply_kind \<Rightarrow> bool" where
  "kind_boxed (KTyped _) = False"
| "kind_boxed (KBoxed _) = True"

subsection \<open>Lemmas\<close>

lemma deliver_fits: "reply_fits R (waiter_kind wt) (deliver R E wt resp)"
  by (cases wt; cases resp) (simp_all add: err_fits_def into_boxed_def into_dyn_erases)

lemma slab_insert_slots:
  "slab_insert v s = Some (k, s') \<Longrightarrow> x \<in> set (slots s') \<Longrightarrow> x \<in> set (slots s) \<or> snd x = Some v"
  by (auto simp: slab_insert_def Let_def split: option.splits if_splits) (metis set_update_memD snd_conv)

lemma slab_take_slots:
  assumes "slab_take k s = Some (v, s')"
  shows "(\<exists>g. (g, Some v) \<in> set (slots s)) \<and> (\<forall>x\<in>set (slots s'). x \<in> set (slots s) \<or> snd x = None)"
proof -
  let ?i = "k mod max_slots s"
  from assms have i: "?i < length (slots s)" and sv: "snd (slots s ! ?i) = Some v"
    and s': "s' = s\<lparr>slots := (slots s)[?i := (Suc (k div max_slots s) mod max_gens s, None)]\<rparr>"
    by (auto simp: slab_take_def Let_def split: if_splits option.splits)
  from i sv have "(fst (slots s ! ?i), Some v) \<in> set (slots s)" by (metis nth_mem prod.collapse)
  moreover have "\<forall>x\<in>set (slots s'). x \<in> set (slots s) \<or> snd x = None"
    using s' by (auto dest: set_update_memD)
  ultimately show ?thesis by blast
qed

lemma register_typed:
  assumes reg: "add_response_waiter_gen (\<lambda>c. insert_waiter (V c)) w = Ok ((m, ch), w')"
    and var: "V \<in> waiter_variants" and ty: "wrapper_typed R \<Gamma> w"
  shows "wrapper_typed R (\<Gamma>(ch := waiter_kind (V ch))) w'"
proof -
  from reg obtain k sl where
    ins: "slab_insert (V (next_chan w)) (waiters w) = Some (k, sl)" and ch: "ch = next_chan w"
    and w': "w' = w\<lparr>chans := (chans w)(next_chan w := ChOpen), next_chan := Suc (next_chan w), waiters := sl\<rparr>"
    by (auto simp: add_response_waiter_gen_def insert_waiter_def Let_def split: option.splits result.splits)
  have c1: "reply_fits R ((\<Gamma>(ch := waiter_kind (V ch))) c) v" if "chans w' c = ChSent v" for c v
    using that ty ch w' by (auto simp: wrapper_typed_def split: if_splits)
  have c2: "(\<Gamma>(ch := waiter_kind (V ch))) (waiter_chan wt) = waiter_kind wt \<and> waiter_chan wt < next_chan w'"
    if "x \<in> set (slots (waiters w'))" "snd x = Some wt" for x wt
  proof -
    from that(1) w' have "x \<in> set (slots sl)" by simp
    from slab_insert_slots [OF ins this] that(2) ch have "x \<in> set (slots (waiters w)) \<or> wt = V ch"
      by auto
    then show ?thesis
    proof
      assume "x \<in> set (slots (waiters w))"
      with ty that(2) have "\<Gamma> (waiter_chan wt) = waiter_kind wt" "waiter_chan wt < next_chan w"
        by (auto simp: wrapper_typed_def)
      then show ?thesis using ch w' by simp
    next
      assume "wt = V ch"
      then show ?thesis using waiter_variants_chan [OF var, of ch] ch w' by simp
    qed
  qed
  from c1 c2 show ?thesis by (auto simp: wrapper_typed_def)
qed

lemma respond_typed:
  assumes resp: "wrapper_response R E m r w = Inr w'" and ty: "wrapper_typed R \<Gamma> w"
  shows "wrapper_typed R \<Gamma> w'"
proof (cases "slab_take (unat m) (waiters w)")
  case None
  with resp show ?thesis using ty by (simp add: wrapper_response_def)
next
  case (Some p)
  obtain wt sl' where p: "p = (wt, sl')" by fastforce
  with Some resp obtain cs where
    snd: "oneshot_send (waiter_chan wt) (deliver R E wt r) (chans w) = Ok cs"
    and w': "w' = w\<lparr>waiters := sl', chans := cs\<rparr>"
    by (auto simp: wrapper_response_def unwrap_def split: result.splits sum.splits)
  from snd have cs: "cs = (chans w)(waiter_chan wt := ChSent (deliver R E wt r))"
    by (auto simp: oneshot_send_def split: chan.splits)
  from slab_take_slots [OF Some [unfolded p]] obtain g where
    old: "(g, Some wt) \<in> set (slots (waiters w))"
    and sub: "\<forall>x\<in>set (slots sl'). x \<in> set (slots (waiters w)) \<or> snd x = None" by blast
  from ty old have k: "\<Gamma> (waiter_chan wt) = waiter_kind wt" by (auto simp: wrapper_typed_def)
  have "reply_fits R (\<Gamma> c) v" if "chans w' c = ChSent v" for c v
    using that ty k deliver_fits [of R wt E r] w' cs by (auto simp: wrapper_typed_def split: if_splits)
  moreover have "\<Gamma> (waiter_chan wt') = waiter_kind wt' \<and> waiter_chan wt' < next_chan w'"
    if "x \<in> set (slots (waiters w'))" "snd x = Some wt'" for x wt'
    using that sub ty w' by (auto simp: wrapper_typed_def)
  ultimately show ?thesis by (auto simp: wrapper_typed_def)
qed

lemma drop_typed: "wrapper_typed R \<Gamma> w \<Longrightarrow> wrapper_typed R \<Gamma> (drop_reply_future ch w)"
  by (auto simp: wrapper_typed_def drop_reply_future_def)

lemma wstep_typed: "wstep R E s t \<Longrightarrow> wrapper_typed R (fst s) (snd s) \<Longrightarrow> wrapper_typed R (fst t) (snd t)"
  by (induction rule: wstep.induct) (simp_all add: register_typed respond_typed drop_typed)

lemma new_wrapper_typed: "wrapper_typed R \<Gamma> (h_wrapper (receiver_new l T st ns ng))"
  by (simp add: wrapper_typed_def receiver_new_def slab_new_def)

lemma await_fits:
  assumes ty: "wrapper_typed R \<Gamma> w" and aw: "await_reply (kind_boxed (\<Gamma> ch)) (chans w ch) = Some v"
  shows "reply_fits R (\<Gamma> ch) v"
proof (cases "chans w ch")
  case (ChSent v')
  with aw have "v = v'" by (simp add: await_reply_def)
  with ChSent ty show ?thesis by (simp add: wrapper_typed_def)
next
  case ChTxDropped
  with aw show ?thesis
    by (cases "\<Gamma> ch") (auto simp: await_reply_def err_fits_def void_typed_def from_recv_error_def)
qed (use aw in \<open>simp_all add: await_reply_def\<close>)

text \<open>
  C24: type soundness of response delivery. In every state a receiver's wrapper reaches
  from \<open>Receiver::new\<close> through registrations of any waiter variant, responses and
  dropped response futures, every value on a channel has the channel's static type;
  so what a requester's future yields fits the future's type, and a boxed \<open>Ok\<close>
  reply holds a value of runtime type \<open>R\<close>, on which \<open>downcast::<R>()\<close> succeeds.
\<close>

theorem response_delivery_type_sound:
  assumes "(wstep R E)\<^sup>*\<^sup>* (\<Gamma>0, h_wrapper (receiver_new l T st ns ng)) (\<Gamma>, w)"
  shows "wrapper_typed R \<Gamma> w \<and>
         (\<forall>ch v. await_reply (kind_boxed (\<Gamma> ch)) (chans w ch) = Some v \<longrightarrow>
            reply_fits R (\<Gamma> ch) v \<and> (\<forall>x. v = RBoxed (Ok x) \<longrightarrow> downcast R x = Inr (dyn_val x)))"
proof -
  have "wrapper_typed R (fst (\<Gamma>, w)) (snd (\<Gamma>, w))"
    using assms
  proof (induction rule: rtranclp_induct)
    case base
    show ?case by (simp add: new_wrapper_typed)
  next
    case (step s t)
    show ?case by (rule wstep_typed [OF step(2) step(3)])
  qed
  then have ty: "wrapper_typed R \<Gamma> w" by simp
  have "downcast R x = Inr (dyn_val x)" if "reply_fits R (\<Gamma> ch) (RBoxed (Ok x))" for ch x
    using that by (cases "\<Gamma> ch") (simp_all add: downcast_def)
  with ty await_fits [OF ty] show ?thesis by blast
qed

theorem response_delivery_type_sound_witness:
  "\<exists>w. (wstep (RTy ''u8'' []) (RTy ''Error'' []))\<^sup>*\<^sup>*
          (\<lambda>_. KTyped True, h_wrapper (receiver_new 1 example_types (h_strategy example_handle) 4 2))
          ((\<lambda>_. KTyped True)(0 := KBoxed False), w) \<and>
       wrapper_typed (RTy ''u8'' []) ((\<lambda>_. KTyped True)(0 := KBoxed False)) w \<and>
       chans w 0 = ChSent (RBoxed (Ok (Dyn (RTy ''u8'' []) (9::int))))"
proof -
  let ?R = "RTy ''u8'' []" and ?E = "RTy ''Error'' []"
  let ?w1 = "example_wrapper\<lparr>chans := (\<lambda>_. ChTxDropped)(0 := ChOpen), next_chan := 1,
                waiters := \<lparr>slots = [(0, Some (Boxed 0))], max_slots = 4, max_gens = 2\<rparr>\<rparr>"
  let ?w2 = "?w1\<lparr>waiters := \<lparr>slots = [(1, None)], max_slots = 4, max_gens = 2\<rparr>,
                chans := (\<lambda>_. ChTxDropped)(0 := ChSent (RBoxed (Ok (Dyn ?R (9::int)))))\<rparr>"
  have w0: "h_wrapper (receiver_new 1 example_types (h_strategy example_handle) 4 2) = example_wrapper"
    by (simp add: receiver_new_def example_wrapper_def)
  have s1: "wstep ?R ?E (\<lambda>_. KTyped True, example_wrapper) ((\<lambda>_. KTyped True)(0 := KBoxed False), ?w1)"
    using wstep.register [OF _ example_registration, of ?R ?E "\<lambda>_. KTyped True"]
    by (simp add: waiter_variants_def)
  have "wrapper_response ?R ?E 0 (Ok 9) ?w1 = Inr ?w2"
    by (simp add: wrapper_response_def slab_take_def oneshot_send_def unwrap_def into_boxed_def
        example_wrapper_def fun_upd_twist)
  then have s2: "wstep ?R ?E ((\<lambda>_. KTyped True)(0 := KBoxed False), ?w1) ((\<lambda>_. KTyped True)(0 := KBoxed False), ?w2)"
    by (rule wstep.respond)
  have reach: "(wstep ?R ?E)\<^sup>*\<^sup>* (\<lambda>_. KTyped True, h_wrapper (receiver_new 1 example_types (h_strategy example_handle) 4 2))
                 ((\<lambda>_. KTyped True)(0 := KBoxed False), ?w2)"
    unfolding w0 using s1 s2 by (meson rtranclp.rtrancl_refl rtranclp.rtrancl_into_rtrancl)
  from response_delivery_type_sound [OF reach] have "wrapper_typed ?R ((\<lambda>_. KTyped True)(0 := KBoxed False)) ?w2" ..
  with reach show ?thesis by (intro exI [of _ ?w2]) simp
qed

end
