(* ===== verification/Relay_Contract.thy ===== *)
theory Relay_Contract
  imports TestRelay
begin

text \<open>
  The relay adapter contract of spec section 6 as an abstract specification over
  the traits a relay implements, and its refinement by the \<open>TestRelay\<close> of
  \<open>src/tests/test_relay.rs\<close>. A relay is a \<open>SendUntypedReceiver\<close> (lines 34--44 of
  \<open>src/src/receiver.rs\<close>), a \<open>ReciveUnypedReceiver\<close> (lines 58--64) and a
  \<open>TypeTagAccept\<close> (lines 90--93); each trait is a record of its methods over the
  implementor's state \<open>'s\<close>, the events \<open>'e\<close> and the boxed messages \<open>'b\<close>. The
  contract: every triple \<open>iter_types\<close> advertises is accepted; \<open>send(Action)\<close> of
  \<open>Init\<close>, \<open>Flush\<close>, \<open>Sync\<close> or \<open>Close\<close> succeeds and is eventually answered by the
  matching event (\<open>Ready\<close> or \<open>InitFailed\<close>, \<open>Flushed\<close>, \<open>Synchronized\<close>, \<open>Exited\<close>);
  \<open>send_msg(mid, ..)\<close> succeeds and is eventually answered by a \<open>Response(mid, ..)\<close>
  or by \<open>Exited\<close>. "Eventually" is: among the events a bounded number of
  \<open>poll_events\<close> calls returns.
\<close>

record ('s, 'b) send_untyped_receiver =
  sur_send :: "action \<Rightarrow> 's \<Rightarrow> ((unit, action send_error) result \<times> 's) may_panic"
  sur_send_msg :: "mid \<Rightarrow> 'b \<Rightarrow> 's \<Rightarrow> ((unit, 'b send_error) result \<times> 's) may_panic"

text \<open>The default \<open>send_msg\<close> of \<open>SendUntypedReceiver\<close>: \<open>unimplemented!()\<close>.\<close>

definition send_msg_default :: "mid \<Rightarrow> 'b \<Rightarrow> 's \<Rightarrow> ((unit, 'b send_error) result \<times> 's) may_panic" where
  "send_msg_default m b s = Inl (Panic ''not implemented'')"

record ('s, 'e) recive_unyped_receiver =
  rur_poll_events :: "'s \<Rightarrow> 'e option \<times> 's"

record type_tag_accept_impl =
  tta_accept :: "type_tag \<Rightarrow> type_tag option \<Rightarrow> type_tag option \<Rightarrow> bool"
  tta_iter_types :: "(type_tag \<times> type_tag \<times> type_tag \<Rightarrow> bool) \<Rightarrow> (type_tag \<times> type_tag \<times> type_tag) list"

type_synonym ('s, 'e, 'b) relay_impl =
  "('s, 'b) send_untyped_receiver \<times> ('s, 'e) recive_unyped_receiver \<times> type_tag_accept_impl"

text \<open>The events of at most \<open>n\<close> polls, up to the first \<open>Pending\<close>.\<close>

fun poll_n :: "nat \<Rightarrow> ('s \<Rightarrow> 'e option \<times> 's) \<Rightarrow> 's \<Rightarrow> 'e list" where
  "poll_n 0 p s = []"
| "poll_n (Suc n) p s = (case p s of (None, _) \<Rightarrow> [] | (Some e, s') \<Rightarrow> e # poll_n n p s')"

fun action_reply :: "action \<Rightarrow> 'u event \<Rightarrow> bool" where
  "action_reply Init Ready = True"
| "action_reply Init (InitFailed _) = True"
| "action_reply Flush Flushed = True"
| "action_reply Sync (Synchronized _) = True"
| "action_reply Close Exited = True"
| "action_reply _ _ = False"

fun answers_msg :: "mid \<Rightarrow> 'u event \<Rightarrow> bool" where
  "answers_msg m (Response m' _) = (m' = m)"
| "answers_msg m Exited = True"
| "answers_msg m _ = False"

definition relay_contract :: "('s, 'u event, 'b) relay_impl \<Rightarrow> bool" where
  "relay_contract r \<longleftrightarrow>
     (let (snd_r, rcv_r, acc_r) = r in
      (\<forall>t\<in>set (tta_iter_types acc_r (\<lambda>_. True)).
         tta_accept acc_r (fst t) (Some (fst (snd t))) (Some (snd (snd t)))) \<and>
      (\<forall>a s. a \<noteq> StatsAction \<longrightarrow>
         (\<exists>s' n. sur_send snd_r a s = Inr (Ok (), s') \<and>
                 (\<exists>ev\<in>set (poll_n n (rur_poll_events rcv_r) s'). action_reply a ev))) \<and>
      (\<forall>m b s. \<exists>s' n. sur_send_msg snd_r m b s = Inr (Ok (), s') \<and>
                 (\<exists>ev\<in>set (poll_n n (rur_poll_events rcv_r) s'). answers_msg m ev)))"

text \<open>The three trait impls of \<open>TestRelay\<close>.\<close>

definition test_relay_impl :: "(rval dyn relay, rval dyn event, rval dyn) relay_impl" where
  "test_relay_impl =
     (\<lparr>sur_send = relay_send, sur_send_msg = (\<lambda>m b r. Inr (relay_send_msg m b r))\<rparr>,
      \<lparr>rur_poll_events = relay_poll_events\<rparr>,
      \<lparr>tta_accept = relay_accept, tta_iter_types = relay_iter_types\<rparr>)"

subsection \<open>Lemmas\<close>

lemma poll_n_relay: "poll_n (length (relay_queue r)) relay_poll_events r = relay_queue r"
proof (induction "relay_queue r" arbitrary: r)
  case (Cons ev q)
  have rq: "relay_queue r = ev # q" using Cons.hyps(2) by simp
  then have "poll_n (length (relay_queue r)) relay_poll_events r =
               ev # poll_n (length q) relay_poll_events (r\<lparr>relay_queue := q\<rparr>)"
    by (simp add: relay_poll_events_def)
  also have "\<dots> = ev # q" using Cons.hyps(1) [of "r\<lparr>relay_queue := q\<rparr>"] by simp
  finally show ?case using rq by simp
qed simp

lemma iter_until_all: "iter_until (\<lambda>_. True) ts = ts"
  by (induction ts) simp_all

lemma relay_last_polled: "ev \<in> set (poll_n (length (relay_queue r) + 1) relay_poll_events (r\<lparr>relay_queue := relay_queue r @ [ev]\<rparr>))"
  using poll_n_relay [of "r\<lparr>relay_queue := relay_queue r @ [ev]\<rparr>"] by simp

lemma relay_action_answered:
  assumes "a \<noteq> StatsAction"
  shows "\<exists>s' n. relay_send a r = Inr (Ok (), s') \<and>
           (\<exists>ev\<in>set (poll_n n relay_poll_events s'). action_reply a ev)"
proof -
  obtain ev where ev: "relay_send a r = Inr (Ok (), r\<lparr>relay_queue := relay_queue r @ [ev]\<rparr>)" "action_reply a ev"
    using assms by (cases a) (auto simp: relay_send_def)
  then show ?thesis using relay_last_polled [of ev r] by blast
qed

lemma relay_msg_answered:
  "\<exists>s' n. relay_send_msg m b r = (Ok (), s') \<and> (\<exists>ev\<in>set (poll_n n relay_poll_events s'). answers_msg m ev)"
proof -
  obtain res where "relay_send_msg m b r = (Ok (), r\<lparr>relay_queue := relay_queue r @ [Response m res]\<rparr>)"
    using relay_send_msg_ok by blast
  moreover have "answers_msg m (Response m res)" by simp
  ultimately show ?thesis using relay_last_polled [of "Response m res" r] by blast
qed

text \<open>
  C27: \<open>TestRelay\<close> refines the relay adapter contract: it accepts every triple it
  advertises, answers each of \<open>Init\<close>, \<open>Flush\<close>, \<open>Sync\<close> and \<open>Close\<close> with the
  matching event, and answers every \<open>send_msg\<close> with a \<open>Response\<close> for its id, from
  any state of its event channel.
\<close>

theorem test_relay_refines_contract: "relay_contract test_relay_impl"
  unfolding relay_contract_def test_relay_impl_def
  using relay_advertised_accepted relay_action_answered relay_msg_answered
  by (auto simp: relay_iter_types_def iter_until_all)

lemma action_reply_Close: "action_reply Close ev \<longleftrightarrow> ev = Exited"
  by (cases ev) simp_all

theorem test_relay_refines_contract_witness:
  "\<exists>s' n. sur_send (fst test_relay_impl) Close \<lparr>relay_queue = []\<rparr> = Inr (Ok (), s') \<and>
          Exited \<in> set (poll_n n (rur_poll_events (fst (snd test_relay_impl))) s')"
proof -
  have c: "\<forall>a (s :: rval dyn relay). a \<noteq> StatsAction \<longrightarrow> (\<exists>s' n. relay_send a s = Inr (Ok (), s') \<and>
             (\<exists>ev\<in>set (poll_n n relay_poll_events s'). action_reply a (ev :: rval dyn event)))"
    using test_relay_refines_contract by (clarsimp simp: relay_contract_def test_relay_impl_def)
  from c [rule_format, of Close "\<lparr>relay_queue = []\<rparr>"] show ?thesis
    by (auto simp: test_relay_impl_def action_reply_Close)
qed

end
