(* ===== verification/Pollers.thy ===== *)
theory Pollers
  imports Event_Loop
begin

text \<open>
  Polling tasks of a receiver. \<open>ReceiverWrapper::start_polling\<close> (lines 446--450 of
  \<open>src/src/receiver.rs\<close>) returns \<open>start_polling_events()\<close>, and
  \<open>Receiver::start_polling\<close> (lines 800--805) forwards to it: every call builds a
  fresh boxed future running the whole loop of \<open>start_polling_events\<close> over the one
  shared strategy; nothing records that a loop was already started. The model keeps the
  receiver's wrapper state, one status per started loop, and the events the strategy's
  \<open>poll_events\<close> still has to yield. The loops are interleaved as an indexed family
  (one step = one loop fetches the next event, or runs its \<open>match\<close> on the event it
  holds), so whichever loop polls first receives an event.
\<close>

datatype 'u poll_task = Polling | Holding "'u event" | Finished | Crashed

record 'u poll_system =
  ps_wrapper :: "'u wrapper"
  ps_tasks :: "'u poll_task list"
  ps_events :: "'u event list"

text \<open>\<open>ReceiverWrapper::start_polling\<close>: one more running copy of the loop.\<close>

definition wrapper_start_polling :: "'u poll_system \<Rightarrow> 'u poll_system" where
  "wrapper_start_polling s = s\<lparr>ps_tasks := ps_tasks s @ [Polling]\<rparr>"

text \<open>\<open>Receiver::start_polling\<close>: \<open>self.inner.clone().start_polling()\<close>.\<close>

definition receiver_start_polling :: "'u poll_system \<Rightarrow> 'u poll_system" where
  "receiver_start_polling s = wrapper_start_polling s"

text \<open>
  One loop iteration of the loop \<open>i\<close> in two steps: \<open>poll_fn(poll_events).await\<close>
  hands it the strategy's next event (\<open>poll_fetch\<close>), then its \<open>match\<close> runs
  (\<open>handle_event\<close>). The loops are tasks of a multi-threaded runtime, so another loop
  may fetch and handle events between the two. A panic ends the task; the wrapper state
  it leaves is not constrained (the \<open>Response\<close> arm has already decremented the
  counter when the \<open>unwrap\<close> in \<open>response\<close> panics).
\<close>

inductive poll_step :: "rty \<Rightarrow> rty \<Rightarrow> 'u poll_system \<Rightarrow> 'u poll_system \<Rightarrow> bool" for R E where
  poll_fetch: "\<lbrakk>i < length (ps_tasks s); ps_tasks s ! i = Polling; ps_events s = ev # evs\<rbrakk> \<Longrightarrow>
    poll_step R E s (s\<lparr>ps_tasks := (ps_tasks s)[i := Holding ev], ps_events := evs\<rparr>)"
| poll_continue: "\<lbrakk>i < length (ps_tasks s); ps_tasks s ! i = Holding ev;
      handle_event R E ev (ps_wrapper s) = Inr (Continue, w')\<rbrakk> \<Longrightarrow>
    poll_step R E s (s\<lparr>ps_wrapper := w', ps_tasks := (ps_tasks s)[i := Polling]\<rparr>)"
| poll_break: "\<lbrakk>i < length (ps_tasks s); ps_tasks s ! i = Holding ev;
      handle_event R E ev (ps_wrapper s) = Inr (Break, w')\<rbrakk> \<Longrightarrow>
    poll_step R E s (s\<lparr>ps_wrapper := w', ps_tasks := (ps_tasks s)[i := Finished]\<rparr>)"
| poll_panic: "\<lbrakk>i < length (ps_tasks s); ps_tasks s ! i = Holding ev;
      handle_event R E ev (ps_wrapper s) = Inl p\<rbrakk> \<Longrightarrow>
    poll_step R E s (s\<lparr>ps_wrapper := w', ps_tasks := (ps_tasks s)[i := Crashed]\<rparr>)"

inductive_cases poll_stepE: "poll_step R E s s'"

fun is_holding :: "'u poll_task \<Rightarrow> bool" where
  "is_holding (Holding _) = True"
| "is_holding _ = False"

text \<open>
  No loop can take a step: no loop holds an event, and the strategy has no more
  events or no loop is polling.
\<close>

definition poll_stuck :: "'u poll_system \<Rightarrow> bool" where
  "poll_stuck s \<longleftrightarrow> \<not> list_ex is_holding (ps_tasks s) \<and> (ps_events s = [] \<or> Polling \<notin> set (ps_tasks s))"

text \<open>Events whose arm neither panics nor looks at the waiters.\<close>

fun lifecycle_event :: "'u event \<Rightarrow> bool" where
  "lifecycle_event (Response _ _) = False"
| "lifecycle_event (StatsEvent _) = False"
| "lifecycle_event _ = True"

fun task_ok :: "'u poll_task \<Rightarrow> bool" where
  "task_ok (Holding ev) = lifecycle_event ev"
| "task_ok Crashed = False"
| "task_ok _ = True"

text \<open>The events the strategy yields and the loops hold, and how many loops wait.\<close>

definition poll_inv :: "nat \<Rightarrow> 'u poll_system \<Rightarrow> bool" where
  "poll_inv n s \<longleftrightarrow> length (ps_tasks s) = n \<and> list_all task_ok (ps_tasks s) \<and>
     list_all lifecycle_event (ps_events s) \<and>
     (ps_events s = [] \<or> last (ps_events s) = Exited) \<and>
     count_list (ps_tasks s) Finished + count_list (ps_tasks s) (Holding Exited) +
       count_list (ps_events s) Exited = 1"

text \<open>Work left: each event is fetched, then handled.\<close>

definition poll_measure :: "'u poll_system \<Rightarrow> nat" where
  "poll_measure s = 2 * length (ps_events s) + length (filter is_holding (ps_tasks s))"

subsection \<open>Lemmas\<close>

lemma count_tasks:
  "list_all task_ok ts \<Longrightarrow> \<not> list_ex is_holding ts \<Longrightarrow>
   count_list ts Polling + count_list ts Finished = length ts"
proof (induction ts)
  case Nil
  then show ?case by simp
next
  case (Cons t ts)
  then show ?case by (cases t) auto
qed

lemma lifecycle_handle_event:
  "lifecycle_event ev \<Longrightarrow>
   \<exists>w'. handle_event R E ev w = Inr (if ev = Exited then Break else Continue, w')"
  by (cases ev) auto

lemma poll_step_measure:
  assumes "poll_step R E s s'"
  shows "poll_measure s' < poll_measure s"
  using assms
proof (cases rule: poll_step.cases)
  case (poll_fetch i ev evs)
  with length_filter_update [OF poll_fetch(2), of is_holding "Holding ev"] show ?thesis
    by (simp add: poll_measure_def)
next
  case (poll_continue i ev w')
  with length_filter_update [OF poll_continue(2), of is_holding Polling] show ?thesis
    by (simp add: poll_measure_def)
next
  case (poll_break i ev w')
  with length_filter_update [OF poll_break(2), of is_holding Finished] show ?thesis
    by (simp add: poll_measure_def)
next
  case (poll_panic i ev p w')
  with length_filter_update [OF poll_panic(2), of is_holding Crashed] show ?thesis
    by (simp add: poll_measure_def)
qed

lemma poll_step_exists:
  assumes "\<not> poll_stuck s"
  shows "\<exists>s'. poll_step R E s s'"
proof (cases "list_ex is_holding (ps_tasks s)")
  case True
  then obtain i ev where i: "i < length (ps_tasks s)" and h: "ps_tasks s ! i = Holding ev"
    by (auto simp: list_ex_iff in_set_conv_nth elim!: is_holding.elims)
  show ?thesis
  proof (cases "handle_event R E ev (ps_wrapper s)")
    case (Inl p)
    with poll_panic [OF i h] show ?thesis by blast
  next
    case (Inr r)
    then obtain ctl w' where "handle_event R E ev (ps_wrapper s) = Inr (ctl, w')" by (cases r) auto
    with poll_continue [OF i h] poll_break [OF i h] show ?thesis by (cases ctl) blast+
  qed
next
  case False
  with assms obtain ev evs i where ev: "ps_events s = ev # evs" and i: "i < length (ps_tasks s)"
    and p: "ps_tasks s ! i = Polling"
    by (auto simp: poll_stuck_def in_set_conv_nth neq_Nil_conv)
  from poll_fetch [OF i p ev] show ?thesis by blast
qed

lemma poll_reaches_stuck: "\<exists>s'. (poll_step R E)\<^sup>*\<^sup>* s s' \<and> poll_stuck s'"
proof (induction "poll_measure s" arbitrary: s rule: less_induct)
  case less
  show ?case
  proof (cases "poll_stuck s")
    case True
    then show ?thesis by blast
  next
    case False
    then obtain s1 where st: "poll_step R E s s1" using poll_step_exists by blast
    with less poll_step_measure obtain s2 where "(poll_step R E)\<^sup>*\<^sup>* s1 s2" "poll_stuck s2" by blast
    with st show ?thesis by (blast intro: converse_rtranclp_into_rtranclp)
  qed
qed

lemma held_lifecycle:
  "list_all task_ok ts \<Longrightarrow> i < length ts \<Longrightarrow> ts ! i = Holding ev \<Longrightarrow> lifecycle_event ev"
  by (metis list_all_length task_ok.simps(1))

lemma poll_inv_step:
  assumes "poll_step R E s s'" "poll_inv n s"
  shows "poll_inv n s'"
  using assms(1)
proof (cases rule: poll_step.cases)
  case (poll_fetch i ev evs)
  with assms(2) show ?thesis
    by (auto simp: poll_inv_def count_list_update intro!: list_all_update split: if_splits)
next
  case (poll_continue i ev w')
  with assms(2) held_lifecycle [of "ps_tasks s" i ev] lifecycle_handle_event [of ev R E "ps_wrapper s"]
  show ?thesis
    by (auto simp: poll_inv_def count_list_update intro!: list_all_update split: if_splits)
next
  case (poll_break i ev w')
  with assms(2) held_lifecycle [of "ps_tasks s" i ev] lifecycle_handle_event [of ev R E "ps_wrapper s"]
  have "ev = Exited" by (auto simp: poll_inv_def split: if_splits)
  moreover from poll_break have "0 < count_list (ps_tasks s) (ps_tasks s ! i)"
    using nth_mem count_list_pos by metis
  ultimately show ?thesis using poll_break assms(2)
    by (auto simp: poll_inv_def count_list_update intro!: list_all_update)
next
  case (poll_panic i ev p w')
  with assms(2) held_lifecycle [of "ps_tasks s" i ev] lifecycle_handle_event [of ev R E "ps_wrapper s"]
  show ?thesis by (auto simp: poll_inv_def)
qed

lemma poll_inv_reach:
  "(poll_step R E)\<^sup>*\<^sup>* s s' \<Longrightarrow> poll_inv n s \<Longrightarrow> poll_inv n s'"
  by (induction rule: rtranclp_induct) (auto intro: poll_inv_step)

lemma no_holding_count: "\<not> list_ex is_holding ts \<Longrightarrow> count_list ts (Holding ev) = 0"
  by (induction ts) auto

lemma poll_inv_stuck:
  assumes "poll_inv n s" "poll_stuck s" "0 < n"
  shows "ps_events s = [] \<and> count_list (ps_tasks s) Finished = 1 \<and> count_list (ps_tasks s) Polling = n - 1"
proof -
  from assms(2) have nh: "\<not> list_ex is_holding (ps_tasks s)" by (simp add: poll_stuck_def)
  have ev: "ps_events s = []"
  proof (rule ccontr)
    assume ne: "ps_events s \<noteq> []"
    with assms(1) have "Exited \<in> set (ps_events s)" by (metis last_in_set poll_inv_def)
    then have "0 < count_list (ps_events s) Exited" by (simp only: count_list_pos)
    with assms(1) have "count_list (ps_tasks s) Finished = 0"
      by (simp add: poll_inv_def)
    with assms(1,3) nh count_tasks [of "ps_tasks s"] have "0 < count_list (ps_tasks s) Polling"
      by (simp add: poll_inv_def)
    then have "Polling \<in> set (ps_tasks s)" by (simp only: count_list_pos)
    with ne assms(2) show False by (simp add: poll_stuck_def)
  qed
  with assms(1) nh no_holding_count [OF nh, of Exited] count_tasks [of "ps_tasks s"] show ?thesis
    by (auto simp: poll_inv_def)
qed

lemma start_polling_pow:
  "ps_tasks ((receiver_start_polling ^^ n) s) = ps_tasks s @ replicate n Polling \<and>
   ps_events ((receiver_start_polling ^^ n) s) = ps_events s \<and>
   ps_wrapper ((receiver_start_polling ^^ n) s) = ps_wrapper s"
  by (induction n) (auto simp: receiver_start_polling_def wrapper_start_polling_def replicate_append_same)

subsection \<open>Repeated \<open>start_polling\<close>\<close>

text \<open>
  C17: \<open>start_polling\<close> is not idempotent. After \<open>n \<ge> 1\<close> calls of
  \<open>Receiver::start_polling\<close>, on a receiver whose strategy yields lifecycle events
  ending with its one \<open>Exited\<close>, a state where no loop can step is always reached, and
  in every such state the strategy is drained, exactly one loop has finished and the
  other \<open>n - 1\<close> are still polling, forever. Spec 4.4 promises no-op futures for
  the repeated calls, under which all \<open>n\<close> futures would complete.
\<close>

theorem start_polling_not_idempotent:
  assumes "list_all lifecycle_event pre" "Exited \<notin> set pre" "ps_tasks s0 = []"
    "ps_events s0 = pre @ [Exited]" "0 < n"
  shows "(\<exists>s. (poll_step R E)\<^sup>*\<^sup>* ((receiver_start_polling ^^ n) s0) s \<and> poll_stuck s) \<and>
         (\<forall>s. (poll_step R E)\<^sup>*\<^sup>* ((receiver_start_polling ^^ n) s0) s \<and> poll_stuck s \<longrightarrow>
            ps_events s = [] \<and> count_list (ps_tasks s) Finished = 1 \<and>
            count_list (ps_tasks s) Polling = n - 1)"
proof -
  have "poll_inv n ((receiver_start_polling ^^ n) s0)"
    using assms start_polling_pow [of n s0] by (simp add: poll_inv_def count_list_0_iff list_all_iff)
  then show ?thesis using poll_reaches_stuck poll_inv_reach poll_inv_stuck assms(5) by blast
qed

theorem start_polling_not_idempotent_witness:
  "\<exists>s. (poll_step (RTy ''u8'' []) (RTy ''Error'' []))\<^sup>*\<^sup>*
         ((receiver_start_polling ^^ 2) \<lparr>ps_wrapper = example_wrapper, ps_tasks = [],
            ps_events = [Ready, Exited :: int event]\<rparr>) s \<and>
       poll_stuck s \<and> ps_events s = [] \<and> count_list (ps_tasks s) Polling = 1"
proof -
  have "list_all lifecycle_event [Ready :: int event]" "Exited \<notin> set [Ready :: int event]"
    "ps_tasks \<lparr>ps_wrapper = example_wrapper, ps_tasks = [], ps_events = [Ready, Exited :: int event]\<rparr> = []"
    "ps_events \<lparr>ps_wrapper = example_wrapper, ps_tasks = [], ps_events = [Ready, Exited :: int event]\<rparr> =
       [Ready] @ [Exited]" "0 < (2::nat)"
    by simp_all
  from start_polling_not_idempotent [OF this, of "RTy ''u8'' []" "RTy ''Error'' []"] show ?thesis
    by fastforce
qed

text \<open>
  C18: two loops also break the order of the strategy's events: one loop fetches
  \<open>Ready\<close>, the other fetches and handles the later \<open>Pause\<close>, and then the first
  handles \<open>Ready\<close>. The receiver is left ready, while the one loop of a single
  \<open>start_polling\<close> leaves it paused after the same events.
\<close>

theorem start_polling_twice_reorders_readiness:
  "(\<exists>s. (poll_step R E)\<^sup>*\<^sup>* ((receiver_start_polling ^^ 2) \<lparr>ps_wrapper = w, ps_tasks = [],
            ps_events = [Ready, Pause]\<rparr>) s \<and>
        poll_stuck s \<and> ps_events s = [] \<and> ready_flag (rw_context (ps_wrapper s))) \<and>
   (\<exists>w'. run_events R E [Ready, Pause] w = LoopPending w' \<and> \<not> ready_flag (rw_context w'))"
proof -
  let ?w1 = "update_context (\<lambda>c. c\<lparr>ready_flag := False\<rparr>) w"
  let ?w2 = "update_context (\<lambda>c. (c\<lparr>ready := snd (notify_waiters (ready c))\<rparr>)\<lparr>ready_flag := True\<rparr>) ?w1"
  let ?s0 = "\<lparr>ps_wrapper = w, ps_tasks = [Polling, Polling], ps_events = [Ready, Pause]\<rparr>"
  let ?s1 = "\<lparr>ps_wrapper = w, ps_tasks = [Holding Ready, Polling], ps_events = [Pause]\<rparr>"
  let ?s2 = "\<lparr>ps_wrapper = w, ps_tasks = [Holding Ready, Holding Pause], ps_events = []\<rparr>"
  let ?s3 = "\<lparr>ps_wrapper = ?w1, ps_tasks = [Holding Ready, Polling], ps_events = []\<rparr>"
  let ?s4 = "\<lparr>ps_wrapper = ?w2, ps_tasks = [Polling, Polling], ps_events = []\<rparr>"
  have s0: "(receiver_start_polling ^^ 2) \<lparr>ps_wrapper = w, ps_tasks = [], ps_events = [Ready, Pause]\<rparr> = ?s0"
    by (simp add: numeral_2_eq_2 receiver_start_polling_def wrapper_start_polling_def)
  have 1: "poll_step R E ?s0 ?s1" using poll_fetch [of 0 ?s0 Ready "[Pause]" R E] by simp
  have 2: "poll_step R E ?s1 ?s2" using poll_fetch [of 1 ?s1 Pause "[]" R E] by simp
  have 3: "poll_step R E ?s2 ?s3" using poll_continue [of 1 ?s2 Pause R E ?w1] by simp
  have 4: "poll_step R E ?s3 ?s4" using poll_continue [of 0 ?s3 Ready R E ?w2] by simp
  have "(poll_step R E)\<^sup>*\<^sup>* ?s0 ?s4" using 1 2 3 4 by simp
  moreover have "poll_stuck ?s4" by (simp add: poll_stuck_def)
  moreover have "ready_flag (rw_context (ps_wrapper ?s4))" by (simp add: update_context_def)
  ultimately have "\<exists>s. (poll_step R E)\<^sup>*\<^sup>* ?s0 s \<and> poll_stuck s \<and> ps_events s = [] \<and>
                      ready_flag (rw_context (ps_wrapper s))" by fastforce
  then show ?thesis by (simp add: s0 update_context_def)
qed

end
