(* ===== verification/Demo_Backpressure_Types.thy ===== *)
theory Demo_Backpressure_Types
  imports Derive Wrapper
begin

text \<open>
  The declarations of \<open>src/examples/demo_backpressure.rs\<close> that the producer of theory
  \<open>Demo_Backpressure\<close> sends through: the error type \<open>Error\<close> with
  \<open>#[derive(MbError)]\<close> and its \<open>From<error::Error<M>>\<close> impl, the message
  \<open>MsgF32\<close> with \<open>#[derive(Clone, Message)]\<close>, and the handler of
  \<open>TmpReceiver\<close>. The derives are inputs of the \<open>Derive\<close> model: the attribute lists
  are empty, since \<open>#[derive(..)]\<close> itself is not passed to the macro and the
  \<open>#[error(..)]\<close> of \<open>thiserror\<close> sits on the variant. An \<open>f32\<close> payload is
  an \<open>int\<close>: no value of it is inspected.
\<close>

text \<open>\<open>enum Error { Error(anyhow::Error) }\<close> (lines 8--12), the \<open>anyhow\<close> box holding the
  bus error it was made from.\<close>

datatype bp_error = BpError "(int, unit) error"

definition bp_error_input :: derive_input where
  "bp_error_input = \<lparr>di_ident = ''Error'', di_attrs = [], di_generics = []\<rparr>"

text \<open>\<open>impl From<error::Error<M>> for Error\<close> (lines 14--18): \<open>Self::Error(err.into())\<close>.\<close>

definition bp_error_from :: "(int, unit) error \<Rightarrow> bp_error" where
  "bp_error_from err = BpError err"

text \<open>\<open>struct MsgF32(pub f32)\<close> (lines 20--21).\<close>

definition bp_msg_input :: derive_input where
  "bp_msg_input = \<lparr>di_ident = ''MsgF32'', di_attrs = [], di_generics = []\<rparr>"

text \<open>
  \<open>AsyncHandler<MsgF32> for TmpReceiver\<close> (lines 25--38): \<open>Response = ()\<close>,
  \<open>Error = Error\<close>; the body prints, sleeps a second and returns \<open>Ok(())\<close>.
\<close>

definition bp_handle :: "int \<Rightarrow> (unit, bp_error) result" where
  "bp_handle msg = Ok ()"

text \<open>The types of the receiver \<open>subscribe_async::<MsgF32>\<close> builds for the handler.\<close>

definition bp_types :: wrapper_types where
  "bp_types = \<lparr>msg_ty = RTy ''MsgF32'' [], resp_ty = RTy ''()'' [], err_ty = RTy ''Error'' []\<rparr>"

subsection \<open>Lemmas\<close>

lemma bp_msg_derived:
  "derive_message bp_msg_input =
     Inr \<lparr>mi_tag = \<lparr>ti_generics = [], ti_class = ''MsgF32'', ti_body = TagLiteral ''MsgF32''\<rparr>,
          mi_generics = [], mi_class = ''MsgF32'', mi_shared = NoSharedImpl, mi_clone = NoCloneImpl\<rparr>"
  by (simp add: derive_message_def bp_msg_input_def scan_init_def type_tag_part_def tag_name_def
      shared_part_def clone_part_def tags_default_def)

lemma bp_error_derived:
  "derive_error bp_error_input =
     Inr \<lparr>ti_generics = [], ti_class = ''Error'', ti_body = TagLiteral ''Error''\<rparr>"
  by (simp add: derive_error_def bp_error_input_def scan_init_def type_tag_part_def tag_name_def)

text \<open>
  The tags the derives generate are the ones the subscribed receiver advertises and
  checks: \<open>iter_types\<close> yields \<open>(MsgF32, (), Error)\<close>, \<open>accept\<close> takes that
  triple and refuses another response type, and the handler answers every message with
  \<open>Ok(())\<close>. \<open>MsgF32\<close> derives \<open>Clone\<close> but no \<open>#[message(clone)]\<close>, so its
  envelope refuses \<open>try_clone_boxed\<close>.
\<close>

theorem bp_receiver_types:
  "(\<exists>mi. derive_message bp_msg_input = Inr mi \<and>
        type_tag_eval (ti_body (mi_tag mi)) inst = Some (tag_of (msg_ty bp_types)) \<and>
        try_clone_boxed (mi_clone mi) T x = None) \<and>
   (\<exists>ti. derive_error bp_error_input = Inr ti \<and>
        type_tag_eval (ti_body ti) inst = Some (tag_of (err_ty bp_types))) \<and>
   iter_types bp_types = [(''MsgF32'', ''()'', ''Error'')] \<and>
   accept bp_types ''MsgF32'' (Some ''()'') (Some ''Error'') \<and>
   \<not> accept bp_types ''MsgF32'' (Some ''u8'') None \<and>
   (\<forall>m. bp_handle m = Ok ())"
  by (simp add: bp_msg_derived bp_error_derived bp_types_def iter_types_def accept_def bp_handle_def)

end
