(* ===== verification/Receiver_Traits.thy ===== *)
theory Receiver_Traits
  imports Receiver_Api
begin

text \<open>
  The trait declarations of \<open>src/src/receiver.rs\<close> that \<open>ReceiverWrapper\<close>
  implements (lines 46--139), as records of their methods over the model's state, and
  the wrapper's impls (lines 191--464) as values of those records built from the
  operations of theories \<open>Waiters\<close>, \<open>Event_Loop\<close>, \<open>Wrapper\<close> and
  \<open>Receiver_Api\<close>. Methods with \<open>&self\<close> and interior mutability take and return
  the state they change. The erased interface \<open>ReceiverTrait\<close> gets the contract of
  the table of spec section 4.4 (\<open>receiver_trait_spec\<close>), which the wrapper's impl
  meets. \<open>name\<close> (a \<open>type_name\<close> text) and \<open>start_polling\<close> (theory
  \<open>Pollers\<close>) are not fields.
\<close>

text \<open>\<open>SendTypedReceiver<M>\<close> (lines 46--48) and \<open>ReciveTypedReceiver<M, E>\<close> (lines
  50--56), implemented by a strategy of state \<open>'s\<close>; a pending poll is \<open>None\<close>.\<close>

record ('s, 'u) send_typed_receiver =
  str_send :: "mid \<Rightarrow> 'u \<Rightarrow> 's \<Rightarrow> ('s, 'u send_error) result"

record ('s, 'u) recive_typed_receiver =
  rtr_poll_events :: "'s \<Rightarrow> 'u event option \<times> 's"

text \<open>The three listener traits (lines 66--88): the sender of a channel is its index.\<close>

type_synonym 'u listener = "nat \<Rightarrow> 'u wrapper \<Rightarrow> (mid \<times> 'u wrapper, (unit, 'u) error) result"

record 'u wrapper_return_type_only =
  wrto_add_response_listener :: "'u listener"

record 'u wrapper_error_type_only =
  weto_add_response_listener :: "'u listener"

record 'u wrapper_return_type_and_error =
  wrte_start_polling_events :: "'u event list \<Rightarrow> 'u wrapper \<Rightarrow> 'u loop_outcome"
  wrte_add_response_listener :: "'u listener"
  wrte_response :: "mid \<Rightarrow> ('u, (unit, 'u) error) result \<Rightarrow> 'u wrapper \<Rightarrow> 'u wrapper may_panic"

text \<open>\<open>ReceiverTrait\<close> (lines 95--125, less \<open>name\<close> and \<open>start_polling\<close>), over a handle.\<close>

record 'u receiver_trait =
  rt_accept :: "type_tag \<Rightarrow> type_tag option \<Rightarrow> type_tag option \<Rightarrow> bool"
  rt_iter_types :: "(type_tag \<times> type_tag \<times> type_tag) list"
  rt_typed :: "any_receiver option"
  rt_wrapper :: "any_wrapper_ref option"
  rt_send_boxed :: "mid \<Rightarrow> 'u dyn \<Rightarrow> 'u handle \<Rightarrow> (unit, ('u dyn, 'u) error) result \<times> 'u handle"
  rt_add_response_listener :: "nat \<Rightarrow> 'u handle \<Rightarrow> (mid, (unit, 'u) error) result \<times> 'u handle"
  rt_stats :: "'u handle \<Rightarrow> stats may_panic"
  rt_send_action :: "action \<Rightarrow> 'u handle \<Rightarrow> (unit, (action, 'u) error) result \<times> 'u handle"
  rt_close_notify :: "'u handle \<Rightarrow> notify"
  rt_sync_notify :: "'u handle \<Rightarrow> notify"
  rt_flush_notify :: "'u handle \<Rightarrow> notify"
  rt_ready_notify :: "'u handle \<Rightarrow> notify"
  rt_is_init_sent :: "'u handle \<Rightarrow> bool"
  rt_is_ready :: "'u handle \<Rightarrow> bool"
  rt_need_flush :: "'u handle \<Rightarrow> bool"
  rt_try_reserve :: "type_tag \<Rightarrow> 'u handle \<Rightarrow> permit option \<times> 'u handle"
  rt_reserve_notify :: "type_tag \<Rightarrow> 'u handle \<Rightarrow> notify"

text \<open>\<open>PermitDrop\<close> (lines 136--138), implemented by the receiver context.\<close>

record permit_drop_trait =
  pd_permit_drop :: "receiver_context \<Rightarrow> receiver_context"

subsection \<open>The impls of \<open>ReceiverWrapper\<close>\<close>

text \<open>A result of an operation on the wrapper or the strategy, lifted to the handle.\<close>

definition on_wrapper :: "('a \<times> 'u wrapper, 'e) result \<Rightarrow> 'u handle \<Rightarrow> ('a, 'e) result \<times> 'u handle" where
  "on_wrapper r h = (case r of Ok (a, w') \<Rightarrow> (Ok a, h\<lparr>h_wrapper := w'\<rparr>) | Err e \<Rightarrow> (Err e, h))"

definition on_strategy :: "('u strategy, 'e) result \<Rightarrow> 'u handle \<Rightarrow> (unit, 'e) result \<times> 'u handle" where
  "on_strategy r h = (case r of Ok st' \<Rightarrow> (Ok (), h\<lparr>h_strategy := st'\<rparr>) | Err e \<Rightarrow> (Err e, h))"

text \<open>\<open>impl WrapperReturnTypeAndError<R, E>\<close> (lines 191--271).\<close>

definition wrapper_rte_impl :: "rty \<Rightarrow> rty \<Rightarrow> 'u wrapper_return_type_and_error" where
  "wrapper_rte_impl R E =
     \<lparr>wrte_start_polling_events = run_events R E,
      wrte_add_response_listener = add_response_listener_re,
      wrte_response = wrapper_response R E\<rparr>"

text \<open>\<open>impl WrapperReturnTypeOnly<R>\<close> (lines 273--289) and \<open>WrapperErrorTypeOnly<E>\<close>
  (lines 291--307).\<close>

definition wrapper_rto_impl :: "'u wrapper_return_type_only" where
  "wrapper_rto_impl = \<lparr>wrto_add_response_listener = add_response_listener_r\<rparr>"

definition wrapper_eto_impl :: "'u wrapper_error_type_only" where
  "wrapper_eto_impl = \<lparr>weto_add_response_listener = add_response_listener_e\<rparr>"

text \<open>\<open>impl ReceiverTrait\<close> (lines 337--444), for the wrapper of types \<open>T\<close>.\<close>

definition receiver_wrapper_trait :: "wrapper_types \<Rightarrow> 'u receiver_trait" where
  "receiver_wrapper_trait T =
     \<lparr>rt_accept = accept T,
      rt_iter_types = iter_types T,
      rt_typed = Some (any_receiver_new T),
      rt_wrapper = Some (any_wrapper_ref_new T),
      rt_send_boxed = (\<lambda>m b h. on_strategy (send_boxed T m b (h_strategy h)) h),
      rt_add_response_listener = (\<lambda>ch h. on_wrapper (add_response_listener_boxed ch (h_wrapper h)) h),
      rt_stats = wrapper_stats,
      rt_send_action = (\<lambda>a h. on_strategy (send_action a (h_strategy h)) h),
      rt_close_notify = (\<lambda>h. closed (rw_context (h_wrapper h))),
      rt_sync_notify = (\<lambda>h. synchronized (rw_context (h_wrapper h))),
      rt_flush_notify = (\<lambda>h. flushed (rw_context (h_wrapper h))),
      rt_ready_notify = (\<lambda>h. ready (rw_context (h_wrapper h))),
      rt_is_init_sent = (\<lambda>h. init_sent (rw_context (h_wrapper h))),
      rt_is_ready = (\<lambda>h. ready_flag (rw_context (h_wrapper h))),
      rt_need_flush = (\<lambda>h. wrapper_need_flush (h_wrapper h)),
      rt_try_reserve = (\<lambda>_. receiver_try_reserve),
      rt_reserve_notify = (\<lambda>_ h. response (rw_context (h_wrapper h)))\<rparr>"

text \<open>\<open>impl PermitDrop for ReceiverContext\<close> (lines 634--638): \<open>processing.fetch_sub(1)\<close>.\<close>

definition context_permit_drop :: permit_drop_trait where
  "context_permit_drop = \<lparr>pd_permit_drop = permit_drop\<rparr>"

subsection \<open>The contract of \<open>ReceiverTrait\<close>\<close>

text \<open>
  The table of spec section 4.4, for an implementation \<open>vt\<close>: \<open>accept\<close> is true
  exactly for an advertised message tag with the advertised response and error tags
  where given; \<open>typed()\<close> and \<open>wrapper()\<close> are offered; sending a message or an
  action touches only the strategy; \<open>add_response_listener\<close> returns a correlation id
  under which the waiter is stored, or \<open>AddListenerError\<close> with nothing changed;
  \<open>try_reserve\<close> is the admission step of section 4.3; the notifies and flags are
  those of the context.
\<close>

definition receiver_trait_spec :: "'u receiver_trait \<Rightarrow> bool" where
  "receiver_trait_spec vt \<longleftrightarrow>
     (\<forall>m r e. rt_accept vt m r e \<longleftrightarrow>
        (\<exists>t\<in>set (rt_iter_types vt). m = fst t \<and> (r = None \<or> r = Some (fst (snd t))) \<and>
                                    (e = None \<or> e = Some (snd (snd t))))) \<and>
     rt_typed vt \<noteq> None \<and> rt_wrapper vt \<noteq> None \<and>
     (\<forall>m b h. h_wrapper (snd (rt_send_boxed vt m b h)) = h_wrapper h) \<and>
     (\<forall>a h. h_wrapper (snd (rt_send_action vt a h)) = h_wrapper h) \<and>
     (\<forall>ch h. slab_wf (waiters (h_wrapper h)) \<longrightarrow>
        (case rt_add_response_listener vt ch h of
           (Ok m, h') \<Rightarrow> slab_get (unat m) (waiters (h_wrapper h')) = Some (Boxed ch) \<and>
                         rw_context (h_wrapper h') = rw_context (h_wrapper h)
         | (Err e, h') \<Rightarrow> e = AddListenerError \<and> h' = h)) \<and>
     (\<forall>tt h. case rt_try_reserve vt tt h of
        (Some p, h') \<Rightarrow> handle_processing h < handle_limit h \<and> \<not> fuse p \<and>
                        handle_processing h' = handle_processing h + 1 \<and> handle_limit h' = handle_limit h
      | (None, h') \<Rightarrow> \<not> handle_processing h < handle_limit h \<and> h' = h) \<and>
     (\<forall>tt h. rt_reserve_notify vt tt h = response (rw_context (h_wrapper h))) \<and>
     (\<forall>h. rt_close_notify vt h = closed (rw_context (h_wrapper h)) \<and>
          rt_sync_notify vt h = synchronized (rw_context (h_wrapper h)) \<and>
          rt_flush_notify vt h = flushed (rw_context (h_wrapper h)) \<and>
          rt_ready_notify vt h = ready (rw_context (h_wrapper h))) \<and>
     (\<forall>h. rt_is_init_sent vt h = init_sent (rw_context (h_wrapper h)) \<and>
          rt_is_ready vt h = ready_flag (rw_context (h_wrapper h)) \<and>
          rt_need_flush vt h = need_flush (rw_context (h_wrapper h)))"

subsection \<open>Lemmas\<close>

lemma insert_waiter_result:
  assumes "slab_wf (waiters w)"
  shows "case insert_waiter wt w of
           Ok (m, w') \<Rightarrow> slab_get (unat m) (waiters w') = Some wt \<and> rw_context w' = rw_context w
         | Err e \<Rightarrow> e = AddListenerError"
proof (cases "slab_insert wt (waiters w)")
  case None
  then show ?thesis by (simp add: insert_waiter_def)
next
  case (Some r)
  then obtain k sl where ins: "slab_insert wt (waiters w) = Some (k, sl)" by (cases r) auto
  have "unat (of_nat k :: mid) = k" using slab_insert_key_bound [OF ins assms] unat_of_nat_key by simp
  with slab_take_insert [OF ins assms] ins show ?thesis
    by (auto simp: insert_waiter_def slab_get_def)
qed

lemma accept_advertised:
  "accept T m r e \<longleftrightarrow>
     (\<exists>t\<in>set (iter_types T). m = fst t \<and> (r = None \<or> r = Some (fst (snd t))) \<and>
                            (e = None \<or> e = Some (snd (snd t))))"
  by (auto simp: accept_def iter_types_def split: option.splits)

lemma on_strategy_wrapper: "h_wrapper (snd (on_strategy r h)) = h_wrapper h"
  by (simp add: on_strategy_def split: result.splits)

text \<open>
  C15: the impl of \<open>ReceiverTrait\<close> for \<open>ReceiverWrapper\<close> meets the contract of
  the erased receiver interface of spec section 4.4, for every instantiation of
  \<open>M\<close>, \<open>R\<close> and \<open>E\<close>.
\<close>

theorem receiver_wrapper_meets_trait_spec:
  "receiver_trait_spec (receiver_wrapper_trait T)"
proof -
  have listen: "case on_wrapper (add_response_listener_boxed ch (h_wrapper h)) h of
           (Ok m, h') \<Rightarrow> slab_get (unat m) (waiters (h_wrapper h')) = Some (Boxed ch) \<and>
                         rw_context (h_wrapper h') = rw_context (h_wrapper h)
         | (Err e, h') \<Rightarrow> e = AddListenerError \<and> h' = h"
    if "slab_wf (waiters (h_wrapper h))" for ch and h :: "'u handle"
    using insert_waiter_result [OF that, of "Boxed ch"]
    by (auto simp: on_wrapper_def add_response_listener_boxed_def split: result.splits)
  show ?thesis
    by (simp add: receiver_trait_spec_def receiver_wrapper_trait_def accept_advertised
        on_strategy_wrapper listen receiver_try_reserve_step wrapper_need_flush_def)
qed

theorem receiver_wrapper_meets_trait_spec_witness:
  "fst (rt_add_response_listener (receiver_wrapper_trait example_types) 0 example_handle) = Ok 0 \<and>
   slab_get 0 (waiters (h_wrapper (snd (rt_add_response_listener (receiver_wrapper_trait example_types) 0
      example_handle)))) = Some (Boxed 0)"
proof -
  have wf: "slab_wf (waiters (h_wrapper example_handle))"
    by (simp add: example_handle_def slab_wf_def slab_new_def example_wrapper_def)
  let ?r = "rt_add_response_listener (receiver_wrapper_trait example_types) 0 example_handle"
  have ok: "fst ?r = Ok 0"
    by (simp add: receiver_wrapper_trait_def on_wrapper_def add_response_listener_boxed_def
        insert_waiter_def example_handle_def example_wrapper_def slab_insert_def slab_new_def slab_key_def)
  have "\<forall>ch h. slab_wf (waiters (h_wrapper h)) \<longrightarrow>
        (case rt_add_response_listener (receiver_wrapper_trait example_types) ch h of
           (Ok m, h') \<Rightarrow> slab_get (unat m) (waiters (h_wrapper h')) = Some (Boxed ch) \<and>
                         rw_context (h_wrapper h') = rw_context (h_wrapper h)
         | (Err e, h') \<Rightarrow> e = AddListenerError \<and> h' = (h :: int handle))"
    using receiver_wrapper_meets_trait_spec [of example_types] unfolding receiver_trait_spec_def
    by (elim conjE)
  from this [rule_format, OF wf] have "case ?r of
           (Ok m, h') \<Rightarrow> slab_get (unat m) (waiters (h_wrapper h')) = Some (Boxed 0) \<and>
                         rw_context (h_wrapper h') = rw_context (h_wrapper example_handle)
         | (Err e, h') \<Rightarrow> e = AddListenerError \<and> h' = example_handle" .
  with ok show ?thesis by (cases ?r) simp
qed

end
