(* ===== verification/Receiver_System.thy ===== *)
theory Receiver_System
  imports Waiters_Typing
begin

text \<open>
  One receiver as a closed system, composed from the operations of the other theories:
  producers reserving a permit (\<open>Receiver::try_reserve\<close>), sending with it
  (\<open>Receiver::send\<close>, whose permit is dropped fused at the end of the call) or dropping
  it unsent (\<open>Drop for Permit\<close>); the lifecycle calls \<open>close\<close>, \<open>sync\<close> and
  \<open>flush\<close>; the strategy running the handler \<open>f\<close> on its oldest queued message and
  yielding the \<open>Response\<close>, and yielding \<open>Exited\<close> once it is closed and drained
  (spec sections 3 and 4.2); and the event-poll loop handling the strategy's events in
  order (\<open>handle_event\<close>) until it breaks. A requester first registers a response
  waiter of any of the four variants (\<open>Receiver::add_response_waiter*\<close>) and keeps
  its future; the message id of a send is arbitrary, so it may or may not be one a
  waiter was registered under. Ghost counters record the permits producers hold and
  the sends that failed after their permit was fused.
\<close>

text \<open>The strategy's handler step (spec 4.2): the oldest message is handled and answered.\<close>

definition strategy_handle ::
  "('u \<Rightarrow> ('u, (unit, 'u) error) result) \<Rightarrow> 'u strategy \<Rightarrow> ('u event \<times> 'u strategy) option" where
  "strategy_handle f st =
     (case st_queue st of
        [] \<Rightarrow> None
      | (m, x) # q \<Rightarrow> Some (Response m (f x), st\<lparr>st_queue := q\<rparr>))"

text \<open>The strategy yields \<open>Exited\<close> once \<open>Close\<close> was accepted and its queue is drained.\<close>

definition strategy_drained :: "'u strategy \<Rightarrow> bool" where
  "strategy_drained st \<longleftrightarrow> st_closed st \<and> st_queue st = []"

record 'u rsys =
  rs_handle :: "'u handle"
  rs_held :: nat
  rs_events :: "'u event list"
  rs_leaked :: nat
  rs_exit_emitted :: bool
  rs_exited :: bool

abbreviation rs_strategy :: "'u rsys \<Rightarrow> 'u strategy" where
  "rs_strategy s \<equiv> h_strategy (rs_handle s)"

abbreviation rs_context :: "'u rsys \<Rightarrow> receiver_context" where
  "rs_context s \<equiv> rw_context (h_wrapper (rs_handle s))"

definition map_context :: "(receiver_context \<Rightarrow> receiver_context) \<Rightarrow> 'u handle \<Rightarrow> 'u handle" where
  "map_context g h = h\<lparr>h_wrapper := update_context g (h_wrapper h)\<rparr>"

definition sys_init :: "u64 \<Rightarrow> wrapper_types \<Rightarrow> nat \<Rightarrow> nat \<Rightarrow> nat \<Rightarrow> 'u rsys" where
  "sys_init lim T cap ns ng =
     \<lparr>rs_handle = receiver_new lim T \<lparr>st_queue = [], st_cap = cap, st_closed = False, st_actions = []\<rparr> ns ng,
      rs_held = 0, rs_events = [], rs_leaked = 0, rs_exit_emitted = False, rs_exited = False\<rparr>"

text \<open>The waiters in the slab: each on an open channel of its own, below \<open>next_chan\<close>.\<close>

fun slot_chan :: "nat \<times> waiter option \<Rightarrow> nat option" where
  "slot_chan (g, Some wt) = Some (waiter_chan wt)"
| "slot_chan (g, None) = None"

definition waiters_ok :: "'u wrapper \<Rightarrow> bool" where
  "waiters_ok w \<longleftrightarrow>
     (\<forall>x\<in>set (slots (waiters w)). \<forall>c. slot_chan x = Some c \<longrightarrow> chans w c = ChOpen \<and> c < next_chan w) \<and>
     (\<forall>c. count_list (map slot_chan (slots (waiters w))) (Some c) \<le> 1)"

inductive sys_step ::
  "rty \<Rightarrow> rty \<Rightarrow> ('u \<Rightarrow> ('u, (unit, 'u) error) result) \<Rightarrow> 'u rsys \<Rightarrow> 'u rsys \<Rightarrow> bool" for R E f where
  sys_reserve: "receiver_try_reserve (rs_handle s) = (Some p, h') \<Longrightarrow>
    sys_step R E f s (s\<lparr>rs_handle := h', rs_held := Suc (rs_held s)\<rparr>)"
| sys_send: "0 < rs_held s \<Longrightarrow>
    receiver_send (msg_ty (h_types (rs_handle s))) m x \<lparr>fuse = False\<rparr> (rs_handle s) = Inr (r, p', h') \<Longrightarrow>
    sys_step R E f s (s\<lparr>rs_handle := map_context (drop_permit p') h', rs_held := rs_held s - 1,
                       rs_leaked := rs_leaked s + (if r = Ok () then 0 else 1)\<rparr>)"
| sys_drop: "0 < rs_held s \<Longrightarrow>
    sys_step R E f s (s\<lparr>rs_handle := map_context (drop_permit \<lparr>fuse = False\<rparr>) (rs_handle s),
                       rs_held := rs_held s - 1\<rparr>)"
| sys_register: "V \<in> waiter_variants \<Longrightarrow>
    add_response_waiter_gen (\<lambda>c. insert_waiter (V c)) (h_wrapper (rs_handle s)) = Ok ((m, ch), w') \<Longrightarrow>
    sys_step R E f s (s\<lparr>rs_handle := (rs_handle s)\<lparr>h_wrapper := w'\<rparr>\<rparr>)"
| sys_lifecycle: "(res, h') \<in> {receiver_close (rs_handle s), receiver_sync (rs_handle s), receiver_flush (rs_handle s)} \<Longrightarrow>
    sys_step R E f s (s\<lparr>rs_handle := h'\<rparr>)"
| sys_handle: "strategy_handle f (rs_strategy s) = Some (ev, st') \<Longrightarrow>
    sys_step R E f s (s\<lparr>rs_handle := (rs_handle s)\<lparr>h_strategy := st'\<rparr>, rs_events := rs_events s @ [ev]\<rparr>)"
| sys_exit: "strategy_drained (rs_strategy s) \<Longrightarrow> \<not> rs_exit_emitted s \<Longrightarrow>
    sys_step R E f s (s\<lparr>rs_events := rs_events s @ [Exited], rs_exit_emitted := True\<rparr>)"
| sys_poll: "\<not> rs_exited s \<Longrightarrow> rs_events s = ev # evs \<Longrightarrow>
    handle_event R E ev (h_wrapper (rs_handle s)) = Inr (ctl, w') \<Longrightarrow>
    sys_step R E f s (s\<lparr>rs_handle := (rs_handle s)\<lparr>h_wrapper := w'\<rparr>, rs_events := evs,
                       rs_exited := (ctl = Break)\<rparr>)"

text \<open>Messages accounted for by \<open>processing\<close>: held permits, queued messages, unanswered responses.\<close>

definition sys_in_flight :: "'u rsys \<Rightarrow> nat" where
  "sys_in_flight s = rs_held s + length (st_queue (rs_strategy s)) + length (filter is_response (rs_events s))"

fun sys_event :: "'u event \<Rightarrow> bool" where
  "sys_event (Response _ _) = True"
| "sys_event Exited = True"
| "sys_event _ = False"

definition sys_inv :: "u64 \<Rightarrow> 'u rsys \<Rightarrow> bool" where
  "sys_inv lim s \<longleftrightarrow>
     limit (rs_context s) = lim \<and>
     unat (processing (rs_context s)) = sys_in_flight s + rs_leaked s \<and>
     sys_in_flight s + rs_leaked s \<le> unat lim \<and>
     waiters_ok (h_wrapper (rs_handle s)) \<and>
     list_all sys_event (rs_events s) \<and>
     (rs_exit_emitted s \<longrightarrow> strategy_drained (rs_strategy s)) \<and>
     (\<not> rs_exit_emitted s \<longrightarrow> Exited \<notin> set (rs_events s)) \<and>
     (rs_exit_emitted s \<and> \<not> rs_exited s \<longrightarrow>
        rs_events s \<noteq> [] \<and> last (rs_events s) = Exited \<and> count_list (rs_events s) Exited = 1) \<and>
     (rs_exited s \<longrightarrow> rs_exit_emitted s \<and> rs_events s = [])"

subsection \<open>Lemmas\<close>

lemma slot_chan_Some: "slot_chan x = Some c \<longleftrightarrow> (\<exists>wt. snd x = Some wt \<and> waiter_chan wt = c)"
  by (cases x rule: slot_chan.cases) auto

lemma fresh_chan_count:
  "\<forall>x\<in>set xs. \<forall>c. slot_chan x = Some c \<longrightarrow> c < n \<Longrightarrow> count_list (map slot_chan xs) (Some n) = 0"
  by (auto simp: count_list_0_iff) (metis less_irrefl)

lemma register_ok:
  assumes reg: "add_response_waiter_gen (\<lambda>c. insert_waiter (V c)) w = Ok ((m, ch), w')"
    and var: "V \<in> waiter_variants" and ok: "waiters_ok w"
  shows "waiters_ok w' \<and> rw_context w' = rw_context w \<and> ch = next_chan w \<and> chans w' ch = ChOpen \<and>
         next_chan w' = Suc (next_chan w) \<and> (\<forall>c < next_chan w. chans w' c = chans w c)"
proof -
  let ?n = "next_chan w"
  from reg obtain k sl where ins: "slab_insert (V ?n) (waiters w) = Some (k, sl)" and ch: "ch = ?n"
    and w': "w' = w\<lparr>chans := (chans w)(?n := ChOpen), next_chan := Suc ?n, waiters := sl\<rparr>"
    by (auto simp: add_response_waiter_gen_def insert_waiter_def Let_def split: option.splits result.splits)
  have vc: "waiter_chan (V ?n) = ?n" using waiter_variants_chan [OF var] .
  from ok have old: "\<forall>x\<in>set (slots (waiters w)). \<forall>c. slot_chan x = Some c \<longrightarrow> chans w c = ChOpen \<and> c < ?n"
    and cnt: "\<forall>c. count_list (map slot_chan (slots (waiters w))) (Some c) \<le> 1"
    by (simp_all add: waiters_ok_def)
  have z: "count_list (map slot_chan (slots (waiters w))) (Some ?n) = 0"
    using old by (intro fresh_chan_count) blast
  have cnt': "count_list (map slot_chan (slots sl)) (Some c) \<le> 1" for c
  proof (cases "first_free (slots (waiters w))")
    case (Some i)
    from first_free_Some [OF Some] have i: "i < length (slots (waiters w))" "snd (slots (waiters w) ! i) = None"
      by auto
    then have "slot_chan (slots (waiters w) ! i) = None" by (cases "slots (waiters w) ! i" rule: slot_chan.cases) auto
    moreover from ins Some have "slots sl = (slots (waiters w))[i := (fst (slots (waiters w) ! i), Some (V ?n))]"
      by (auto simp: slab_insert_def Let_def)
    ultimately show ?thesis using i cnt [rule_format, of c] z vc
      by (auto simp: map_update count_list_update)
  next
    case None
    with ins have "slots sl = slots (waiters w) @ [(0, Some (V ?n))]"
      by (auto simp: slab_insert_def split: if_splits)
    with cnt [rule_format, of c] z vc show ?thesis by auto
  qed
  have chans': "chans w' c = ChOpen \<and> c < next_chan w'" if "x \<in> set (slots sl)" "slot_chan x = Some c" for x c
  proof -
    from slab_insert_slots [OF ins that(1)] consider "x \<in> set (slots (waiters w))" | "snd x = Some (V ?n)" by blast
    then show ?thesis
    proof cases
      case 1
      with old that(2) have "chans w c = ChOpen" "c < ?n" by blast+
      with w' show ?thesis by simp
    next
      case 2
      with that(2) vc have "c = ?n" by (auto simp: slot_chan_Some)
      with w' show ?thesis by simp
    qed
  qed
  from cnt' chans' w' ch show ?thesis by (simp add: waiters_ok_def)
qed

lemma respond_ok:
  assumes ok: "waiters_ok w"
  shows "\<exists>w'. wrapper_response R E m r w = Inr w' \<and> waiters_ok w' \<and> rw_context w' = rw_context w \<and>
           next_chan w' = next_chan w \<and> (\<forall>c. chans w c \<noteq> ChOpen \<longrightarrow> chans w' c = chans w c)"
proof (cases "slab_take (unat m) (waiters w)")
  case None
  with ok show ?thesis by (simp add: wrapper_response_def)
next
  case (Some a)
  let ?xs = "slots (waiters w)" and ?i = "unat m mod max_slots (waiters w)" and ?g = "unat m div max_slots (waiters w)"
  from ok have okc: "\<forall>x\<in>set ?xs. \<forall>c. slot_chan x = Some c \<longrightarrow> chans w c = ChOpen \<and> c < next_chan w"
    and okn: "\<forall>c. count_list (map slot_chan ?xs) (Some c) \<le> 1"
    by (simp_all add: waiters_ok_def)
  obtain wt sl' where a: "a = (wt, sl')" by (cases a)
  from Some a have i: "?i < length ?xs" and si: "snd (?xs ! ?i) = Some wt"
    and sl': "sl' = (waiters w)\<lparr>slots := ?xs[?i := (Suc ?g mod max_gens (waiters w), None)]\<rparr>"
    by (auto simp: slab_take_def Let_def split: if_splits option.splits)
  let ?c0 = "waiter_chan wt"
  have sc: "slot_chan (?xs ! ?i) = Some ?c0" using si by (simp add: slot_chan_Some)
  have mem: "?xs ! ?i \<in> set ?xs" using i by simp
  from okc mem sc have open0: "chans w ?c0 = ChOpen" by blast
  let ?w' = "w\<lparr>waiters := sl', chans := (chans w)(?c0 := ChSent (deliver R E wt r))\<rparr>"
  have resp: "wrapper_response R E m r w = Inr ?w'"
    using Some a open0 by (simp add: wrapper_response_def oneshot_send_def unwrap_def)
  have "Some ?c0 \<in> set (map slot_chan ?xs)" using sc mem by (metis image_eqI set_map)
  then have "0 < count_list (map slot_chan ?xs) (Some ?c0)" by (simp only: count_list_pos)
  with okn [rule_format, of ?c0] have cnt0: "count_list (map slot_chan ?xs) (Some ?c0) = 1" by linarith
  have map': "map slot_chan (slots sl') = (map slot_chan ?xs)[?i := None]"
    using sl' by (simp add: map_update)
  have cnt': "count_list (map slot_chan (slots sl')) (Some c) =
              count_list (map slot_chan ?xs) (Some c) - (if c = ?c0 then 1 else 0)" for c
    using map' i sc by (simp add: count_list_update)
  have chans': "chans w c = ChOpen \<and> c < next_chan w \<and> c \<noteq> ?c0"
    if x: "x \<in> set (slots sl')" "slot_chan x = Some c" for x c
  proof -
    have "Some c \<in> set (map slot_chan (slots sl'))" using x by (metis image_eqI set_map)
    then have "0 < count_list (map slot_chan (slots sl')) (Some c)" by (simp only: count_list_pos)
    with cnt' [of c] cnt0 have ne: "c \<noteq> ?c0" by (auto split: if_splits)
    from x(1) sl' have "x \<in> set ?xs \<or> x = (Suc ?g mod max_gens (waiters w), None)"
      by (auto dest: set_update_memD)
    with x(2) have "x \<in> set ?xs" by auto
    with okc x(2) ne show ?thesis by blast
  qed
  have cnt1: "count_list (map slot_chan (slots sl')) (Some c) \<le> 1" for c
    using cnt' [of c] okn [rule_format, of c] by simp
  have "waiters_ok ?w'"
    unfolding waiters_ok_def using chans' cnt1 by simp
  with resp open0 show ?thesis by auto
qed

lemma waiters_ok_context [simp]: "waiters_ok (w\<lparr>rw_context := c\<rparr>) = waiters_ok w"
  by (simp add: waiters_ok_def)

lemma waiters_ok_update_context [simp]: "waiters_ok (update_context g w) = waiters_ok w"
  by (simp add: update_context_def)


lemma sys_event_handled:
  assumes "sys_event ev" "waiters_ok w"
  shows "\<exists>w'. handle_event R E ev w = Inr (if ev = Exited then Break else Continue, w') \<and>
           waiters_ok w' \<and> limit (rw_context w') = limit (rw_context w) \<and>
           processing (rw_context w') = processing (rw_context w) - (if is_response ev then 1 else 0) \<and>
           next_chan w' = next_chan w \<and> (\<forall>c. chans w c \<noteq> ChOpen \<longrightarrow> chans w' c = chans w c)"
proof (cases ev)
  case (Response m r)
  let ?w2 = "update_context (\<lambda>c. c\<lparr>response := snd (notify_one (response c))\<rparr>)
               (update_context (\<lambda>c. c\<lparr>processing := processing c - 1\<rparr>) w)"
  from respond_ok [of ?w2 R E m r] assms(2) obtain w3 where
    w3: "wrapper_response R E m r ?w2 = Inr w3" "waiters_ok w3" "rw_context w3 = rw_context ?w2"
    "next_chan w3 = next_chan ?w2" "\<forall>c. chans ?w2 c \<noteq> ChOpen \<longrightarrow> chans w3 c = chans ?w2 c"
    by auto
  with Response show ?thesis by (simp add: update_context_def)
next
  case Exited
  with assms show ?thesis by (simp add: update_context_def)
qed (use assms in auto)

lemma receiver_send_effect:
  assumes "receiver_send M m x p h = Inr (r, p', h')"
  shows "fuse p' \<and> h_wrapper h' = h_wrapper h \<and> h_types h' = h_types h \<and>
         (if r = Ok ()
          then st_queue (h_strategy h') = st_queue (h_strategy h) @ [(m, x)] \<and> \<not> st_closed (h_strategy h) \<and>
               st_closed (h_strategy h') = st_closed (h_strategy h)
          else h_strategy h' = h_strategy h)"
  using assms
  by (auto simp: receiver_send_def option_unwrap_def strategy_send_def
      split: option.splits result.splits if_splits)

lemma lifecycle_effect:
  assumes "(res, h') \<in> {receiver_close h, receiver_sync h, receiver_flush h}"
  shows "h_wrapper h' = h_wrapper h \<and> h_types h' = h_types h \<and>
         st_queue (h_strategy h') = st_queue (h_strategy h) \<and>
         (st_closed (h_strategy h) \<longrightarrow> st_closed (h_strategy h'))"
  using assms
  by (auto simp: receiver_close_def receiver_sync_def receiver_flush_def lifecycle_call_def Let_def
      send_action_def strategy_send_action_def split: result.splits if_splits)

lemma waiters_ok_map_context [simp]: "waiters_ok (h_wrapper (map_context g h)) = waiters_ok (h_wrapper h)"
  by (simp add: map_context_def)

lemma map_context_drop:
  "rw_context (h_wrapper (map_context (drop_permit p) h)) =
     (if fuse p then rw_context (h_wrapper h) else permit_drop (rw_context (h_wrapper h))) \<and>
   h_strategy (map_context (drop_permit p) h) = h_strategy h \<and>
   waiters (h_wrapper (map_context (drop_permit p) h)) = waiters (h_wrapper h)"
  by (simp add: map_context_def update_context_def drop_permit_def)

lemma sys_inv_init: "sys_inv lim (sys_init lim T cap ns ng)"
  by (simp add: sys_inv_def sys_init_def receiver_new_def receiver_context_new_def slab_new_def
      sys_in_flight_def strategy_drained_def waiters_ok_def)

lemma last_Exited_once:
  "last (ev # evs) = Exited \<Longrightarrow> count_list (ev # evs) Exited = 1 \<Longrightarrow> ev = Exited \<Longrightarrow> evs = []"
  by (cases evs rule: rev_cases) auto

lemma sys_inv_poll:
  assumes inv: "sys_inv lim s" and ne: "\<not> rs_exited s" and ev: "rs_events s = ev # evs"
    and h: "handle_event R E ev (h_wrapper (rs_handle s)) = Inr (ctl, w')"
  shows "sys_inv lim (s\<lparr>rs_handle := (rs_handle s)\<lparr>h_wrapper := w'\<rparr>, rs_events := evs, rs_exited := (ctl = Break)\<rparr>)"
proof -
  from inv ev have se: "sys_event ev" and sl: "waiters_ok (h_wrapper (rs_handle s))"
    by (simp_all add: sys_inv_def)
  from sys_event_handled [OF se sl, of R E] h
  have ctl: "ctl = (if ev = Exited then Break else Continue)" and w': "waiters_ok w'"
    "limit (rw_context w') = limit (rs_context s)"
    "processing (rw_context w') = processing (rs_context s) - (if is_response ev then 1 else 0)"
    by auto
  show ?thesis
  proof (cases "ev = Exited")
    case True
    with inv ev have "rs_exit_emitted s" by (auto simp: sys_inv_def)
    with inv ne ev True have "evs = []" by (auto simp: sys_inv_def intro: last_Exited_once)
    with True inv ev ctl w' show ?thesis by (simp add: sys_inv_def sys_in_flight_def)
  next
    case False
    with se obtain m r where resp: "ev = Response m r" by (cases ev) auto
    with inv ev have "0 < length (filter is_response (rs_events s))" by simp
    with inv have "processing (rs_context s) \<noteq> 0" by (auto simp: sys_inv_def sys_in_flight_def)
    then have "unat (processing (rs_context s) - 1) = unat (processing (rs_context s)) - 1"
      by (rule unat_decr_pos)
    moreover have "rs_exit_emitted s \<Longrightarrow> evs \<noteq> []" using inv ne ev resp by (auto simp: sys_inv_def)
    ultimately show ?thesis using inv ev ctl w' resp ne
      by (auto simp: sys_inv_def sys_in_flight_def)
  qed
qed

lemma sys_inv_step:
  assumes "sys_step R E f s t" "sys_inv lim s"
  shows "sys_inv lim t"
  using assms(1)
proof (cases rule: sys_step.cases)
  case (sys_reserve p h')
  then have lt: "processing (rs_context s) < limit (rs_context s)"
    and h': "h' = map_context (\<lambda>c. c\<lparr>processing := processing c + 1\<rparr>) (rs_handle s)"
    by (auto simp: receiver_try_reserve_step map_context_def update_context_def split: if_splits)
  from lt have "unat (processing (rs_context s) + 1) = Suc (unat (processing (rs_context s)))"
    by (rule unat_incr_below)
  moreover from lt have "unat (processing (rs_context s)) < unat (limit (rs_context s))"
    by (simp add: word_less_nat_alt)
  ultimately show ?thesis using assms(2) sys_reserve h'
    by (simp add: sys_inv_def sys_in_flight_def map_context_def update_context_def)
next
  case (sys_send m x r p' h')
  from receiver_send_effect [OF sys_send(3)] map_context_drop [of p' h'] assms(2) sys_send(1,2)
  show ?thesis
    by (auto simp: sys_inv_def sys_in_flight_def strategy_drained_def split: if_splits)
next
  case sys_drop
  with assms(2) have "processing (rs_context s) \<noteq> 0" by (auto simp: sys_inv_def sys_in_flight_def)
  then have "unat (processing (rs_context s) - 1) = unat (processing (rs_context s)) - 1"
    by (rule unat_decr_pos)
  with sys_drop assms(2) map_context_drop [of "\<lparr>fuse = False\<rparr>" "rs_handle s"] show ?thesis
    by (auto simp: sys_inv_def sys_in_flight_def permit_drop_def)
next
  case (sys_register V m ch w')
  from register_ok [OF sys_register(3,2)] assms(2) sys_register(1) show ?thesis
    by (simp add: sys_inv_def sys_in_flight_def)
next
  case (sys_lifecycle res h')
  from lifecycle_effect [OF sys_lifecycle(2)] assms(2) sys_lifecycle(1) show ?thesis
    by (auto simp: sys_inv_def sys_in_flight_def strategy_drained_def)
next
  case (sys_handle ev st')
  then obtain m x q where q: "st_queue (rs_strategy s) = (m, x) # q" and ev: "ev = Response m (f x)"
    and st': "st' = (rs_strategy s)\<lparr>st_queue := q\<rparr>"
    by (auto simp: strategy_handle_def split: list.splits)
  with assms(2) have "\<not> rs_exit_emitted s" by (auto simp: sys_inv_def strategy_drained_def)
  with assms(2) sys_handle q ev st' show ?thesis
    by (auto simp: sys_inv_def sys_in_flight_def strategy_drained_def)
next
  case sys_exit
  with assms(2) show ?thesis by (auto simp: sys_inv_def sys_in_flight_def count_list_0_iff)
next
  case (sys_poll ev evs ctl w')
  with sys_inv_poll [OF assms(2) sys_poll(2,3,4)] show ?thesis by simp
qed

lemma sys_inv_reach:
  "(sys_step R E f)\<^sup>*\<^sup>* (sys_init lim T cap ns ng) s \<Longrightarrow> sys_inv lim s"
  by (induction rule: rtranclp_induct) (auto intro: sys_inv_init sys_inv_step)

text \<open>Work left before quiescence: permits to drop, messages to handle, events to poll.\<close>

lemma sys_drain_step:
  assumes inv: "sys_inv lim s" and w: "0 < rs_held s + 2 * length (st_queue (rs_strategy s)) + length (rs_events s)"
  shows "\<exists>t. sys_step R E f s t \<and> sys_inv lim t \<and> rs_leaked t = rs_leaked s \<and>
           rs_held t + 2 * length (st_queue (rs_strategy t)) + length (rs_events t) <
           rs_held s + 2 * length (st_queue (rs_strategy s)) + length (rs_events s)"
proof -
  have mk: "\<exists>t. sys_step R E f s t \<and> sys_inv lim t \<and> rs_leaked t = rs_leaked s \<and>
           rs_held t + 2 * length (st_queue (rs_strategy t)) + length (rs_events t) <
           rs_held s + 2 * length (st_queue (rs_strategy s)) + length (rs_events s)"
    if st: "sys_step R E f s t" and lk: "rs_leaked t = rs_leaked s"
      and dec: "rs_held t + 2 * length (st_queue (rs_strategy t)) + length (rs_events t) <
                rs_held s + 2 * length (st_queue (rs_strategy s)) + length (rs_events s)" for t
    using st lk dec sys_inv_step [OF st inv] by blast
  show ?thesis
  proof (cases "0 < rs_held s")
    case True
    show ?thesis by (rule mk [OF sys_drop [OF True]]) (simp_all add: map_context_drop True)
  next
    case held: False
    show ?thesis
    proof (cases "st_queue (rs_strategy s)")
      case (Cons mx q)
      obtain m x where mx: "mx = (m, x)" by (cases mx)
      have "strategy_handle f (rs_strategy s) = Some (Response m (f x), (rs_strategy s)\<lparr>st_queue := q\<rparr>)"
        using Cons mx by (simp add: strategy_handle_def)
      from mk [OF sys_handle [OF this]] Cons show ?thesis by simp
    next
      case Nil
      with held w obtain ev evs where ev: "rs_events s = ev # evs" by (cases "rs_events s") auto
      with inv have ne: "\<not> rs_exited s" and se: "sys_event ev"
        and sl: "waiters_ok (h_wrapper (rs_handle s))" by (auto simp: sys_inv_def)
      from sys_event_handled [OF se sl, of R E] obtain w' where
        h: "handle_event R E ev (h_wrapper (rs_handle s)) = Inr (if ev = Exited then Break else Continue, w')"
        by blast
      from mk [OF sys_poll [OF ne ev h]] ev show ?thesis by simp
    qed
  qed
qed

lemma sys_drains:
  "sys_inv lim s \<Longrightarrow>
   \<exists>t. (sys_step R E f)\<^sup>*\<^sup>* s t \<and> sys_inv lim t \<and> rs_leaked t = rs_leaked s \<and>
       rs_held t = 0 \<and> st_queue (rs_strategy t) = [] \<and> rs_events t = []"
proof (induction "rs_held s + 2 * length (st_queue (rs_strategy s)) + length (rs_events s)"
    arbitrary: s rule: less_induct)
  case less
  show ?case
  proof (cases "0 < rs_held s + 2 * length (st_queue (rs_strategy s)) + length (rs_events s)")
    case True
    from sys_drain_step [OF less.prems True] obtain t where
      t: "sys_step R E f s t" "sys_inv lim t" "rs_leaked t = rs_leaked s"
      "rs_held t + 2 * length (st_queue (rs_strategy t)) + length (rs_events t) <
       rs_held s + 2 * length (st_queue (rs_strategy s)) + length (rs_events s)" by blast
    from less.hyps [OF t(4) t(2)] obtain u where
      u: "(sys_step R E f)\<^sup>*\<^sup>* t u" "sys_inv lim u" "rs_leaked u = rs_leaked t"
      "rs_held u = 0" "st_queue (rs_strategy u) = []" "rs_events u = []" by blast
    from converse_rtranclp_into_rtranclp [OF t(1) u(1)] u(2-) t(3) show ?thesis by auto
  next
    case False
    then have "rs_held s = 0" "st_queue (rs_strategy s) = []" "rs_events s = []" by auto
    with less.prems show ?thesis by auto
  qed
qed

lemma sys_step_after_exit:
  assumes st: "sys_step R E f u u'" and inv: "sys_inv lim u" and ex: "rs_exited u"
  shows "rs_exited u' \<and> next_chan (h_wrapper (rs_handle u)) \<le> next_chan (h_wrapper (rs_handle u')) \<and>
         (\<forall>c < next_chan (h_wrapper (rs_handle u)). chans (h_wrapper (rs_handle u')) c = chans (h_wrapper (rs_handle u)) c)"
  using st
proof (cases rule: sys_step.cases)
  case (sys_reserve p h')
  with ex show ?thesis by (auto simp: receiver_try_reserve_step split: if_splits)
next
  case (sys_send m x r p' h')
  with ex receiver_send_effect [OF sys_send(3)] show ?thesis
    by (simp add: map_context_def update_context_def)
next
  case sys_drop
  with ex show ?thesis by (simp add: map_context_def update_context_def)
next
  case (sys_register V m ch w')
  from register_ok [OF sys_register(3,2)] inv sys_register(1) ex show ?thesis
    by (simp add: sys_inv_def)
next
  case (sys_lifecycle res h')
  with ex lifecycle_effect [OF sys_lifecycle(2)] show ?thesis by simp
next
  case (sys_handle ev st')
  with inv ex show ?thesis by (auto simp: sys_inv_def strategy_drained_def strategy_handle_def)
next
  case sys_exit
  with ex show ?thesis by simp
next
  case (sys_poll ev evs ctl w')
  with ex show ?thesis by simp
qed

lemma sys_exited_frozen:
  assumes "(sys_step R E f)\<^sup>*\<^sup>* u t" and "sys_inv lim u" and "rs_exited u"
  shows "next_chan (h_wrapper (rs_handle u)) \<le> next_chan (h_wrapper (rs_handle t)) \<and>
         (\<forall>c < next_chan (h_wrapper (rs_handle u)). chans (h_wrapper (rs_handle t)) c = chans (h_wrapper (rs_handle u)) c)"
proof -
  have "sys_inv lim t \<and> rs_exited t \<and> next_chan (h_wrapper (rs_handle u)) \<le> next_chan (h_wrapper (rs_handle t)) \<and>
        (\<forall>c < next_chan (h_wrapper (rs_handle u)). chans (h_wrapper (rs_handle t)) c = chans (h_wrapper (rs_handle u)) c)"
    using assms(1)
  proof (induction rule: rtranclp_induct)
    case base
    with assms(2,3) show ?case by simp
  next
    case (step v v')
    with sys_step_after_exit [OF step(2), of lim] sys_inv_step [OF step(2), of lim] show ?case
      by (metis order.trans order.strict_trans2)
  qed
  then show ?thesis by blast
qed

text \<open>The step in which the loop exits handles \<open>Exited\<close>, which only fires \<open>closed\<close>.\<close>

lemma sys_exit_step_chans:
  assumes "sys_step R E f s s'" and "\<not> rs_exited s" and "rs_exited s'"
  shows "next_chan (h_wrapper (rs_handle s')) = next_chan (h_wrapper (rs_handle s)) \<and>
         chans (h_wrapper (rs_handle s')) = chans (h_wrapper (rs_handle s))"
  using assms(1)
proof (cases rule: sys_step.cases)
  case (sys_poll ev evs ctl w')
  with assms(3) have "ctl = Break" by simp
  with sys_poll(4) handle_event_Break [of R E ev _ w'] have "ev = Exited" by simp
  with sys_poll(1,4) show ?thesis by (auto simp: update_context_def)
qed (use assms(2,3) in simp_all)

subsection \<open>Accounting of the permit budget\<close>

text \<open>
  C2: in every state of a receiver created by \<open>Receiver::new\<close> with limit \<open>lim\<close> and
  driven by any interleaving of reserves, sends, dropped permits, lifecycle calls, the
  strategy's handler and the event loop, \<open>processing\<close> (read as a number) is exactly
  the permits held, plus the messages queued in the strategy, plus the responses the
  loop has not handled, plus one for every send that failed after its permit was
  fused; this sum never exceeds \<open>lim\<close>; the loop can handle every event it is
  given (it never panics); and once it has exited, only the held and leaked permits
  remain counted.
\<close>

theorem receiver_system_accounting:
  assumes "(sys_step R E f)\<^sup>*\<^sup>* (sys_init lim T cap ns ng) s"
  shows "unat (processing (rs_context s)) = sys_in_flight s + rs_leaked s \<and>
         sys_in_flight s + rs_leaked s \<le> unat lim \<and>
         (\<not> rs_exited s \<longrightarrow> (\<forall>ev evs. rs_events s = ev # evs \<longrightarrow>
            (\<exists>r. handle_event R E ev (h_wrapper (rs_handle s)) = Inr r))) \<and>
         (rs_exited s \<longrightarrow> unat (processing (rs_context s)) = rs_held s + rs_leaked s)"
proof -
  have inv: "sys_inv lim s" using sys_inv_reach [OF assms] .
  have "\<exists>r. handle_event R E ev (h_wrapper (rs_handle s)) = Inr r" if "rs_events s = ev # evs" for ev evs
    using inv that sys_event_handled [of ev "h_wrapper (rs_handle s)" R E] by (auto simp: sys_inv_def)
  with inv show ?thesis by (auto simp: sys_inv_def sys_in_flight_def strategy_drained_def)
qed

theorem receiver_system_accounting_witness:
  "\<exists>s. (sys_step (RTy ''u8'' []) (RTy ''Error'' []) (\<lambda>x. Ok x))\<^sup>*\<^sup>*
          (sys_init 1 example_types 1 0 0 :: int rsys) s \<and>
       rs_leaked s = 1 \<and> rs_held s = 0 \<and> unat (processing (rs_context s)) = 1 \<and>
       fst (receiver_try_reserve (rs_handle s)) = None"
proof -
  let ?R = "RTy ''u8'' []" and ?E = "RTy ''Error'' []" and ?f = "\<lambda>x::int. Ok x :: (int, (unit, int) error) result"
  let ?s0 = "sys_init 1 example_types 1 0 0 :: int rsys"
  let ?s1 = "?s0\<lparr>rs_handle := snd (receiver_close (rs_handle ?s0))\<rparr>"
  let ?s2 = "?s1\<lparr>rs_handle := snd (receiver_try_reserve (rs_handle ?s1)), rs_held := Suc (rs_held ?s1)\<rparr>"
  let ?s3 = "?s2\<lparr>rs_handle := map_context (drop_permit \<lparr>fuse = True\<rparr>) (rs_handle ?s2), rs_held := rs_held ?s2 - 1,
                  rs_leaked := rs_leaked ?s2 + 1\<rparr>"
  have 1: "sys_step ?R ?E ?f ?s0 ?s1"
    using sys_lifecycle [where res = "fst (receiver_close (rs_handle ?s0))" and h' = "snd (receiver_close (rs_handle ?s0))"
        and s = ?s0 and R = ?R and E = ?E and f = ?f]
    by simp
  have 2: "sys_step ?R ?E ?f ?s1 ?s2"
    by (rule sys_reserve [where p = "\<lparr>fuse = False\<rparr>"])
       (simp add: sys_init_def receiver_new_def receiver_context_new_def receiver_close_def lifecycle_call_def
          Let_def send_action_def strategy_send_action_def receiver_try_reserve_step)
  have 3: "sys_step ?R ?E ?f ?s2 ?s3"
    using sys_send [where s = ?s2 and m = 0 and x = "0::int" and r = "Err (SendError (Closed 0))"
        and p' = "\<lparr>fuse = True\<rparr>" and h' = "rs_handle ?s2" and R = ?R and E = ?E and f = ?f]
    by (simp add: sys_init_def receiver_new_def receiver_context_new_def receiver_close_def lifecycle_call_def
          Let_def send_action_def strategy_send_action_def receiver_try_reserve_step receiver_send_def
          option_unwrap_def cast_send_typed_def any_receiver_new_def strategy_send_def)
  have reach: "(sys_step ?R ?E ?f)\<^sup>*\<^sup>* ?s0 ?s3" using 1 2 3 by simp
  have fields: "rs_held ?s3 = 0 \<and> rs_leaked ?s3 = 1 \<and> st_queue (rs_strategy ?s3) = [] \<and> rs_events ?s3 = [] \<and>
                limit (rs_context ?s3) = 1"
    by (simp add: sys_init_def receiver_new_def receiver_context_new_def receiver_close_def lifecycle_call_def
          Let_def send_action_def strategy_send_action_def receiver_try_reserve_step map_context_def
          update_context_def drop_permit_def)
  have p: "unat (processing (rs_context ?s3)) = 1"
    using receiver_system_accounting [OF reach] fields by (simp add: sys_in_flight_def)
  then have "processing (rs_context ?s3) = 1" by (metis unat_1 word_unat_eq_iff)
  with fields have "fst (receiver_try_reserve (rs_handle ?s3)) = None"
    by (simp add: receiver_try_reserve_step)
  with reach fields p show ?thesis by blast
qed

text \<open>
  C3: from every reachable state the receiver can be driven to quiescence (held permits
  dropped, every queued message handled, every event polled), and there
  \<open>processing\<close> is exactly the number of sends that failed after fusing their permit:
  it returns to zero only if no send failed.
\<close>

theorem receiver_system_drains:
  assumes "(sys_step R E f)\<^sup>*\<^sup>* (sys_init lim T cap ns ng) s"
  shows "\<exists>t. (sys_step R E f)\<^sup>*\<^sup>* s t \<and> rs_held t = 0 \<and> st_queue (rs_strategy t) = [] \<and>
             rs_events t = [] \<and> unat (processing (rs_context t)) = rs_leaked s"
proof -
  from sys_drains [OF sys_inv_reach [OF assms]] obtain t where
    t: "(sys_step R E f)\<^sup>*\<^sup>* s t" "sys_inv lim t" "rs_leaked t = rs_leaked s"
    "rs_held t = 0" "st_queue (rs_strategy t) = []" "rs_events t = []" by blast
  then show ?thesis by (auto simp: sys_inv_def sys_in_flight_def)
qed

theorem receiver_system_drains_witness:
  "\<exists>t. (sys_step (RTy ''u8'' []) (RTy ''Error'' []) (\<lambda>x. Ok x))\<^sup>*\<^sup>*
          (sys_init 1 example_types 1 0 0 :: int rsys) t \<and> rs_held t = 0 \<and> rs_events t = [] \<and>
       unat (processing (rs_context t)) = 0"
proof -
  let ?s0 = "sys_init 1 example_types 1 0 0 :: int rsys"
  have l: "rs_leaked ?s0 = 0" by (simp add: sys_init_def)
  from receiver_system_drains [OF rtranclp.rtrancl_refl, of "RTy ''u8'' []" "RTy ''Error'' []"
      "\<lambda>x::int. Ok x" 1 example_types 1 0 0]
  obtain t where "(sys_step (RTy ''u8'' []) (RTy ''Error'' []) (\<lambda>x. Ok x))\<^sup>*\<^sup>* ?s0 t" "rs_held t = 0"
    "rs_events t = []" "unat (processing (rs_context t)) = rs_leaked ?s0"
    by blast
  with l show ?thesis by auto
qed

subsection \<open>Requests pending at exit\<close>

text \<open>
  C4: the step in which the event loop exits, by handling \<open>Exited\<close> (receiver.rs
  lines 220--223), changes the channel of no request registered before it, and no later
  step of the system does: a request whose message was refused (queue full or closed)
  or never answered stays pending, resolved neither with a response nor with
  \<open>NoResponse\<close>, for as long as the receiver lives. Spec section 8 says that for every
  inserted waiter exactly one of delivered response, dropped sender and receiver
  exited fires.
\<close>

theorem exited_receiver_leaves_requests_pending:
  assumes "(sys_step R E f)\<^sup>*\<^sup>* (sys_init lim T cap ns ng) s" and "\<not> rs_exited s"
    and "sys_step R E f s s'" and "rs_exited s'" and "(sys_step R E f)\<^sup>*\<^sup>* s' t"
  shows "\<forall>c < next_chan (h_wrapper (rs_handle s)).
           chans (h_wrapper (rs_handle t)) c = chans (h_wrapper (rs_handle s)) c"
proof -
  have inv: "sys_inv lim s'" by (rule sys_inv_reach [OF rtranclp.rtrancl_into_rtrancl [OF assms(1,3)]])
  from sys_exit_step_chans [OF assms(3,2,4)] sys_exited_frozen [OF assms(5) inv assms(4)]
  show ?thesis by simp
qed

theorem exited_receiver_leaves_requests_pending_witness:
  "\<exists>s s' t. (sys_step (RTy ''u8'' []) (RTy ''Error'' []) (\<lambda>x. Ok x))\<^sup>*\<^sup>*
            (sys_init 1 example_types 1 4 2 :: int rsys) s \<and> \<not> rs_exited s \<and>
          sys_step (RTy ''u8'' []) (RTy ''Error'' []) (\<lambda>x. Ok x) s s' \<and> rs_exited s' \<and>
          sys_step (RTy ''u8'' []) (RTy ''Error'' []) (\<lambda>x. Ok x) s' t \<and>
          next_chan (h_wrapper (rs_handle s)) = 1 \<and>
          chans (h_wrapper (rs_handle t)) 0 = ChOpen \<and> await_reply True (chans (h_wrapper (rs_handle t)) 0) = None"
proof -
  let ?R = "RTy ''u8'' []" and ?E = "RTy ''Error'' []" and ?f = "\<lambda>x::int. Ok x :: (int, (unit, int) error) result"
  let ?s0 = "sys_init 1 example_types 1 4 2 :: int rsys"
  let ?w0 = "h_wrapper (rs_handle ?s0)"
  have v: "Boxed \<in> waiter_variants" by (simp add: waiter_variants_def)
  have ok0: "waiters_ok ?w0"
    by (simp add: sys_init_def receiver_new_def slab_new_def waiters_ok_def)
  have "\<exists>r. add_response_waiter_gen (\<lambda>c. insert_waiter (Boxed c)) ?w0 = Ok r"
    by (simp add: sys_init_def receiver_new_def slab_new_def add_response_waiter_gen_def insert_waiter_def
        slab_insert_def Let_def)
  then obtain m ch w1 where reg: "add_response_waiter_gen (\<lambda>c. insert_waiter (Boxed c)) ?w0 = Ok ((m, ch), w1)"
    by (metis prod.exhaust)
  from register_ok [OF reg v ok0] have w1: "ch = 0" "chans w1 0 = ChOpen" "next_chan w1 = 1"
    by (auto simp: sys_init_def receiver_new_def)
  let ?s1 = "?s0\<lparr>rs_handle := (rs_handle ?s0)\<lparr>h_wrapper := w1\<rparr>\<rparr>"
  let ?s2 = "?s1\<lparr>rs_handle := snd (receiver_close (rs_handle ?s1))\<rparr>"
  let ?s3 = "?s2\<lparr>rs_events := rs_events ?s2 @ [Exited], rs_exit_emitted := True\<rparr>"
  let ?w4 = "update_context (\<lambda>c. c\<lparr>closed := snd (notify_waiters (closed c))\<rparr>) (h_wrapper (rs_handle ?s3))"
  let ?s4 = "?s3\<lparr>rs_handle := (rs_handle ?s3)\<lparr>h_wrapper := ?w4\<rparr>, rs_events := [], rs_exited := (Break = Break)\<rparr>"
  let ?t = "?s4\<lparr>rs_handle := snd (receiver_close (rs_handle ?s4))\<rparr>"
  have 1: "sys_step ?R ?E ?f ?s0 ?s1" by (rule sys_register [OF v reg])
  have 2: "sys_step ?R ?E ?f ?s1 ?s2"
    by (rule sys_lifecycle [where res = "fst (receiver_close (rs_handle ?s1))"]) simp
  have st2: "strategy_drained (rs_strategy ?s2)"
    by (simp add: strategy_drained_def sys_init_def receiver_new_def receiver_close_def lifecycle_call_def
          Let_def send_action_def strategy_send_action_def)
  have em2: "\<not> rs_exit_emitted ?s2" by (simp add: sys_init_def)
  have 3: "sys_step ?R ?E ?f ?s2 ?s3" by (rule sys_exit [OF st2 em2])
  have 4: "sys_step ?R ?E ?f ?s3 ?s4"
    by (rule sys_poll [where ev = Exited and evs = "[]"]) (simp_all add: sys_init_def)
  have 5: "sys_step ?R ?E ?f ?s4 ?t"
    by (rule sys_lifecycle [where res = "fst (receiver_close (rs_handle ?s4))"]) simp
  have reach: "(sys_step ?R ?E ?f)\<^sup>*\<^sup>* ?s0 ?s3" using 1 2 3 by simp
  have wr: "h_wrapper (snd (receiver_close h)) = h_wrapper h" for h :: "int handle"
    by (simp add: receiver_close_def lifecycle_call_def Let_def split: result.splits)
  have nc: "next_chan (h_wrapper (rs_handle ?s3)) = 1" "chans (h_wrapper (rs_handle ?s3)) 0 = ChOpen"
    using w1 by (simp_all add: wr)
  have ex3: "\<not> rs_exited ?s3" by (simp add: sys_init_def)
  have ex4: "rs_exited ?s4" by simp
  have "chans (h_wrapper (rs_handle ?t)) 0 = chans (h_wrapper (rs_handle ?s3)) 0"
    using exited_receiver_leaves_requests_pending [OF reach ex3 4 ex4 r_into_rtranclp [of "sys_step ?R ?E ?f", OF 5]] nc
    by simp
  with nc have op: "chans (h_wrapper (rs_handle ?t)) 0 = ChOpen" by simp
  have aw: "await_reply True (chans (h_wrapper (rs_handle ?t)) 0) = None"
    by (simp only: op await_reply_def chan.case)
  show ?thesis
    by (rule exI [of _ ?s3], rule exI [of _ ?s4], rule exI [of _ ?t]) (intro conjI reach ex3 4 ex4 5 nc(1) op aw)
qed

end
