(* ===== verification/Spec2Isabelle.thy ===== *)
theory Spec2Isabelle
  imports Errors Admission Admission_Live Lifecycle Wrapper Lifecycle_Calls Receiver_Misc Derive Tag_Parse TestRelay
    Demo_Async Demo_Backpressure Receiver_Api Waiters_Typing Relay_Contract Pollers
    Demo_Backpressure_Types Receiver_Traits Receiver_System
begin

text \<open>
  Verification library of the receiver core of the \<open>messagebus\<close> crate: the
  receiver (\<open>src/src/receiver.rs\<close>) and the error envelope (\<open>src/src/error.rs\<close>),
  with the derive macros (\<open>src/crates/derive\<close>), the test relay (\<open>src/tests\<close>) and
  the two example programs (\<open>src/examples\<close>) that use them.

  \<^bold>\<open>The program.\<close> A \<open>Receiver\<close> is the bus's handle on one subscription. It
  owns a \<open>ReceiverWrapper\<close> around a handler strategy (the queue the handler task
  reads from), a \<open>ReceiverContext\<close> with an admission counter \<open>processing\<close>
  bounded by \<open>limit\<close>, and five \<open>tokio::sync::Notify\<close> cells. Senders reserve a
  \<open>Permit\<close> (\<open>try_reserve\<close>, a CAS loop), or park on the \<open>response\<close> notify
  when the receiver is full, then \<open>send\<close> the message; the event-poll task
  (\<open>start_polling_events\<close>) reads the strategy's events, decrements the counter
  once per \<open>Response\<close>, wakes one parked sender, and delivers the response to the
  oneshot channel registered in the waiters slab under the message id. The
  lifecycle operations (\<open>init\<close>, \<open>flush\<close>, \<open>sync\<close>, \<open>close\<close>, \<open>ready\<close>) send an
  \<open>Action\<close> and wait on the notify cell that the matching event fires.

  \<^bold>\<open>Theories\<close>, leaves first, and the code they model:
  \<^item> \<open>Bus_Prelude\<close>: \<open>u64\<close> as \<open>64 word\<close> (all counters wrap), message ids,
    Rust panics as \<open>Inl (Panic msg)\<close> of \<open>'a may_panic\<close>, Rust's \<open>Result\<close>,
    \<open>unwrap\<close>, and the word and list lemmas the components share.
  \<^item> \<open>Envelope\<close>: runtime types (\<open>TypeId\<close>, rendered by \<open>tag_of\<close>) and boxed
    values (\<open>Box<dyn Message>\<close>, \<open>Box<dyn Any>\<close>) with \<open>into_boxed\<close> and
    \<open>downcast\<close>; the message traits live outside \<open>src/\<close> and are modelled from
    their documented contract.
  \<^item> \<open>Errors\<close>: \<open>error.rs\<close>: \<open>SendError\<close>, \<open>Error\<close>, and the conversions
    \<open>SendError::into_boxed\<close>, \<open>Error::into_dyn\<close>, \<open>Error::map\<close>, \<open>specify\<close>,
    \<open>from_typed\<close>, \<open>From<oneshot::RecvError>\<close>. Lemmas: which conversions agree,
    which erase the payload, the \<open>map\<close>/\<open>into_dyn\<close> round trip, and exactly when
    \<open>map\<close> and \<open>specify\<close> panic.
  \<^item> \<open>Notify\<close>: the \<open>tokio\<close> \<open>Notify\<close> semantics the receiver relies on (a call
    counter snapshotted by \<open>notified()\<close>, the single stored permit of
    \<open>notify_one\<close>, the FIFO waiter list); a library model, not code of \<open>src/\<close>.
  \<^item> \<open>Context\<close>: \<open>ReceiverContext\<close>, \<open>Receiver::new\<close>'s initial context,
    \<open>permit_drop\<close>, \<open>Permit\<close> and its \<open>Drop\<close>, and \<open>try_reserve\<close> split into its
    two atomic steps \<open>tr_load\<close> and \<open>tr_cas\<close>.
  \<^item> \<open>Admission\<close>: the admission protocol of \<open>Receiver::reserve\<close>/\<open>send\<close> as an
    inductive step relation \<open>adm_step\<close> over any number of sender tasks and the
    event-poll task, interleaved arbitrarily. The invariant \<open>adm_inv\<close> (the counter
    equals the number of permit holders and in-flight messages, and stays at most
    \<open>limit\<close>) is proved by rule induction; concrete traces exhibit a capacity leak
    on a failed send, a lost wakeup when an unfused permit is dropped, and the
    wrap of the counter under \<open>force_send\<close> (\<open>adm_step_forced\<close>).
  \<^item> \<open>Admission_Live\<close>: progress of the same protocol. Under the environment
    assumption \<open>sends_accepted\<close> (every reserved permit is sent and accepted), every
    reachable state can reach the state where all tasks are done and \<open>processing\<close>
    is 0, proved with two further invariants (\<open>live_inv\<close>) and a well-founded
    measure (\<open>undone\<close>, \<open>full_tasks\<close>, \<open>pending_work\<close>).
  \<^item> \<open>Slab\<close>: the \<open>sharded_slab::Slab\<close> of waiters as generation-tagged slots
    with \<open>insert\<close>, \<open>take\<close>, \<open>get\<close>; well-formedness (\<open>slab_wf\<close>) is preserved and
    every key is below \<open>2^63\<close>, so the \<open>as u64\<close> cast of the code never wraps.
  \<^item> \<open>Waiters\<close>: \<open>ReceiverWrapper\<close>'s waiter slab and oneshot channels:
    \<open>add_response_listener\<close> in its four variants, \<open>add_response_waiter*\<close>, the
    reply future and its drop, and \<open>response\<close> (take the waiter, send, \<open>unwrap\<close>).
    Lemmas: a registered waiter receives its response exactly once; a dropped
    listener makes the poll task panic.
  \<^item> \<open>Event_Loop\<close>: \<open>Stats\<close>, \<open>Action\<close>, \<open>Event\<close> and one iteration
    \<open>handle_event\<close> of the loop of \<open>start_polling_events\<close>; \<open>run_events\<close> runs it over
    the list of events \<open>poll_events\<close> yields. Lemmas: nothing after \<open>Exited\<close> or
    \<open>Stats\<close> is processed; the counter and the ready flag after any run.
  \<^item> \<open>Lifecycle\<close>: the \<open>ready()\<close> handshake between callers and the \<open>Ready\<close> arm
    as step relations, in the code's order (\<open>notify_waiters\<close> then store the flag:
    a caller can park forever) and in the spec's order (every caller is woken).
  \<^item> \<open>Wrapper\<close>: \<open>ReceiverWrapper\<close>'s type acceptance (\<open>accept\<close>,
    \<open>iter_types\<close>), the \<open>send_boxed\<close>/\<open>send_action\<close> paths, \<open>AnyReceiver\<close> and
    \<open>AnyWrapperRef\<close> with their \<open>TypeId\<close>-keyed casts, and the public \<open>Receiver\<close>
    handle: \<open>send\<close>, \<open>force_send\<close>, \<open>send_boxed\<close>, \<open>init\<close>, \<open>close\<close>, \<open>sync\<close>,
    \<open>flush\<close> (these three as one atomic operation on the handle). The handler
    strategy is an external trait; it is modelled as a bounded FIFO queue with a
    closed flag (\<open>strategy\<close>). Lemmas: the casts match the instantiation, a
    mistyped send panics, a full queue is \<open>Full\<close> on the typed path and
    \<open>Closed\<close> on the boxed one, \<open>init\<close> sends \<open>Init\<close> on every call.
  \<^item> \<open>Lifecycle_Calls\<close>: \<open>Receiver::close\<close>, \<open>sync\<close> and \<open>flush\<close>
    (receiver.rs lines 922--953) as their three statements (\<open>notified()\<close>,
    \<open>send_action\<close>, \<open>notify.await\<close>), the caller's position \<open>lc_pc\<close> and its
    local future \<open>lc_snap\<close>, in one step relation \<open>lc_step\<close> with the strategy
    answering actions in order (\<open>action_reply\<close>, spec section 6) and the event loop
    (\<open>handle_event\<close>), interleaved arbitrarily. Lemma: from every reachable state
    the call can return from the await (the invariant \<open>lc_inv\<close>: the answering
    event is still queued, as an action or an event, or the future has completed);
    with the send before the subscription it would not.
  \<^item> \<open>Receiver_Api\<close>: \<open>Receiver::new\<close> (\<open>receiver_new\<close>) and the accessors that
    forward to the wrapper and its context (\<open>accept\<close>, \<open>iter_types\<close>,
    \<open>need_flush\<close>, \<open>is_ready\<close>, \<open>is_init_sent\<close>, \<open>reserve_notify\<close>, \<open>try_reserve\<close>,
    and \<open>stats\<close>, which panics). Lemma: a fresh receiver grants exactly \<open>limit\<close>
    permits to a caller that keeps them.
  \<^item> \<open>Waiters_Typing\<close>: type soundness of response delivery, in the style of a
    typing environment: \<open>chan_env\<close> gives each oneshot channel the static type of the
    future that awaits it (\<open>reply_kind\<close>: typed or boxed, with or without \<open>E\<close>), and
    \<open>wrapper_typed\<close> holds in every state of \<open>wstep\<close> (registrations, responses,
    dropped futures) reachable from \<open>Receiver::new\<close>.
  \<^item> \<open>Receiver_Misc\<close>: \<open>Display for ReceiverStats\<close> (its enumerate loop equals a
    join of the fields) and \<open>PartialEq\<close>/\<open>Debug\<close> of \<open>Receiver\<close>, which read the
    \<open>TypeId\<close> of the \<open>Arc<dyn ReceiverTrait>\<close> (a constant: every receiver compares
    equal, recorded as a finding).
  \<^item> \<open>Derive\<close>: the proc-macros \<open>derive_message\<close> and \<open>derive_error\<close> of
    \<open>src/crates/derive/src/lib.rs\<close> over the parsed item: the attribute loops
    (\<open>message_attrs\<close>, \<open>error_attrs\<close>) with \<open>TypeTag::parse\<close> and \<open>Tags::parse\<close>,
    \<open>type_tag_part\<close> (name precedence \<open>tag_name\<close>, the generic-parameter loop
    \<open>tt_loop\<close>), \<open>shared_part\<close> and \<open>clone_part\<close>. The generated impls are
    modelled by what their methods return (\<open>type_tag_eval\<close>, \<open>try_clone_into\<close>,
    \<open>try_clone_boxed\<close>, \<open>as_shared_boxed\<close>), \<open>format!\<close> by \<open>rust_format\<close>.
    Lemmas: the derived \<open>type_tag_()\<close> refines \<open>Envelope.tag_of\<close> for names
    without braces; \<open>derive(Error)\<close> agrees with \<open>derive(Message)\<close>; the clone and
    shared capabilities follow the \<open>#[message(..)]\<close> flags; const generics and an
    empty \<open>#[type_tag()]\<close> make the macro panic. The input \<open>brace_input\<close>
    records a finding: braces in a generic type's tag break its impl.
  \<^item> \<open>Tag_Parse\<close>: a parser \<open>parse_tag\<close> inverse to \<open>tag_of\<close> (fuel
    \<open>2 * length s + 2\<close>, always enough by \<open>size_tag_bound\<close>). Lemma:
    \<open>parse_tag (tag_of t) = Some t\<close> for types whose names avoid \<open><\<close>, \<open>>\<close>,
    \<open>,\<close> and braces (\<open>parse_tag_tag_of\<close>), which with the \<open>Derive\<close> lemmas
    makes such derived tags injective. The inputs \<open>collide_plain\<close> and
    \<open>collide_generic\<close> record a finding: a \<open>type_tag\<close> attribute may equal the tag
    of another type.
  \<^item> \<open>TestRelay\<close>: the relay of \<open>src/tests/test_relay.rs\<close>, the repository's only
    implementation of the relay adapter contract: \<open>accept\<close>, \<open>iter_types\<close>,
    \<open>send\<close> (actions), \<open>send_msg\<close> and \<open>poll_events\<close> over its event queue, with
    the tags of \<open>Msg<F>\<close> and \<open>Error\<close> computed by the \<open>Derive\<close> model. Lemmas:
    advertised triples are accepted; the exact (permissive) \<open>accept\<close>; each action's
    reply event completes that action's future in the event loop of \<open>Event_Loop\<close>;
    every message gets exactly one response, in order; the response to
    \<open>Msg<i32>\<close> has a type the relay itself rejects; the test's request assertion; the test's
    local receiver (\<open>TmpReceiver\<close>, \<open>tmp_types\<close>) and which receiver accepts the
    test's send and request.
  \<^item> \<open>Relay_Contract\<close>: the three traits a relay implements
    (\<open>SendUntypedReceiver\<close>, with its panicking default \<open>send_msg\<close>,
    \<open>ReciveUnypedReceiver\<close>, \<open>TypeTagAccept\<close>) as records of their methods, the
    relay adapter contract of spec section 6 as a predicate \<open>relay_contract\<close> over
    them, and its refinement by \<open>TestRelay\<close> (\<open>test_relay_impl\<close>).
  \<^item> \<open>Receiver_Traits\<close>: the traits \<open>ReceiverWrapper\<close> implements
    (\<open>SendTypedReceiver\<close>, \<open>ReciveTypedReceiver\<close>, the three listener traits,
    \<open>ReceiverTrait\<close>, \<open>PermitDrop\<close>) as records of their methods, the impls as
    record values built from the operations above (\<open>receiver_wrapper_trait\<close>,
    \<open>wrapper_rte_impl\<close>, ...), and the table of spec section 4.4 as a contract
    \<open>receiver_trait_spec\<close> on \<open>ReceiverTrait\<close>, which the wrapper's impl meets
    for every instantiation (accept agrees with iter_types, sends touch only the
    strategy, a listener's id stores its waiter, try_reserve is the admission step).
  \<^item> \<open>Receiver_System\<close>: one receiver as a closed system (\<open>sys_step\<close>) composed
    from \<open>Receiver::try_reserve\<close>, \<open>Receiver::send\<close> with its fused permit, permit
    drops, \<open>close\<close>/\<open>sync\<close>/\<open>flush\<close>, the strategy's handler step
    (\<open>strategy_handle\<close>) and its \<open>Exited\<close> after close and drain, and the event loop's
    \<open>handle_event\<close>, interleaved arbitrarily. Lemma: \<open>processing\<close> always equals the
    held permits plus queued messages plus unhandled responses plus the permits of
    failed sends, within the limit, and the loop never panics on this path; from
    every reachable state the receiver can drain to quiescence, where
    \<open>processing\<close> is the number of failed sends (zero only when none failed);
    requesters register waiters of any variant (the slab's waiters stay on distinct
    open channels, \<open>waiters_ok\<close>), and the step in which the loop exits, by
    handling \<open>Exited\<close>, answers none of the requests still pending, nor does any
    later step.
  \<^item> \<open>Pollers\<close>: \<open>ReceiverWrapper::start_polling\<close> and
    \<open>Receiver::start_polling\<close>, each call one more copy of the loop of
    \<open>Event_Loop\<close> over the one strategy; the copies interleave as an indexed family
    (\<open>poll_step\<close>: a loop fetches the strategy's next event, or runs
    \<open>handle_event\<close> on the event it holds, against the shared wrapper). Lemmas:
    every interleaving reaches a state where no loop can step (the measure
    \<open>poll_measure\<close> decreases); after \<open>n\<close> calls, with a stream of lifecycle
    events ending in \<open>Exited\<close>, every such state has exactly one finished loop and
    \<open>n - 1\<close> loops polling forever, against the spec's idempotent
    \<open>start_polling\<close>; two loops can handle \<open>Ready\<close> after a later \<open>Pause\<close>.
  \<^item> \<open>Demo_Async\<close>: \<open>src/examples/demo_async.rs\<close>: the subscriptions of \<open>main\<close>
    (\<open>demo_subs\<close>), the seven handler bodies (\<open>demo_handler\<close>, \<open>run_handler\<close>: a
    \<open>bus.send\<close> and the \<open>?\<close> through \<open>From<error::Error<M>>\<close>), \<open>main\<close>'s
    \<open>send(0f32)\<close>, and \<open>Bus::send\<close>'s broadcast (from the spec). The executor's
    freedom is the step relation \<open>demo_step\<close> over multisets of pending deliveries
    and done invocations; \<open>demo_drain\<close> (a \<open>partial_function (option)\<close>) is its
    first-in first-out schedule. Lemmas: every schedule terminates (the weight
    \<open>pending_weight\<close>, \<open>3 ^ rank\<close> per delivery, decreases); every maximal schedule
    ends in the same state, with nine invocations (not the five of the spec's
    scenario); the FIFO schedule returns.
  \<^item> \<open>Demo_Backpressure\<close>: \<open>src/examples/demo_backpressure.rs\<close>: a receiver of limit
    1 and a producer making eleven sends one after the other, as \<open>bp_step\<close> over the
    admission protocol of \<open>Admission\<close>. Lemmas: the admission invariant holds in
    every reachable state, and from every reachable state all eleven sends can
    complete (\<open>bp_reaches_done\<close>, by \<open>Admission_Live\<close>'s progress lemma, once
    per send).
  \<^item> \<open>Demo_Backpressure_Types\<close>: the declarations of that example: \<open>Error\<close> and
    \<open>MsgF32\<close> as inputs of the \<open>Derive\<close> model, the \<open>From\<close> impl, the handler
    (\<open>bp_handle\<close>, always \<open>Ok(())\<close>) and the receiver's types \<open>bp_types\<close>. Lemma:
    the derived tags are the ones the receiver advertises and accepts, and
    \<open>MsgF32\<close>'s envelope does not clone (no \<open>#[message(clone)]\<close>).

  \<^bold>\<open>Bounds.\<close> Counters are \<open>64 word\<close>, so wrap-around is part of every
  statement about \<open>processing\<close>. Slab keys are bounded by
  \<open>max_gens * max_slots \<le> 2^63\<close> (\<open>slab_wf\<close>). The CAS loop is unrolled into
  the step relation, and the event loop is structural recursion over the finite list
  of events delivered so far. The tag parser's fuel is \<open>2 * length s + 2\<close>
  (\<open>Tag_Parse\<close>). In \<open>Demo_Async\<close> the handler tree \<open>demo_tree\<close> is cut at depth 5:
  ranks are below 5 and every handler sends a message of lower rank, so depth 5 is
  the whole tree (\<open>demo_tree_fuel\<close>); \<open>demo_drain\<close> may in principle diverge and
  is proved to return (\<open>demo_drain_returns\<close>). The polling loops of \<open>Pollers\<close> run over
  a finite event list; each step fetches or handles one event, so
  \<open>poll_measure\<close> (twice the events left plus the events held) bounds every run.

  \<^bold>\<open>Not modelled.\<close> The \<open>Bus\<close>, builder, strategies and relay wrapper are not in
  \<open>src/\<close> and appear only through the interfaces above. Of the derive macro, the
  \<open>as_any_*\<close> methods (which only coerce \<open>self\<close>) are not modelled, and
  \<open>syn\<close>/\<open>quote\<close> are represented by the behaviour the macro relies on. Of the demos,
  the \<open>println!\<close> output, the one-second sleep of the backpressure handler (time
  is not modelled: the handler answers whenever the scheduler lets it), and the
  closing \<open>flush\<close>/\<open>close\<close>/\<open>poller.await\<close> (operations of the \<open>Bus\<close>, not under
  \<open>src/\<close>, whose outcome depends on how the bus's strategy answers \<open>Flush\<close> and
  \<open>Close\<close>, which spec section 4.2 leaves open) are left out; the \<open>derive\<close>s of their message and error types are
  instances of the \<open>Derive\<close> model. The test body (which drives the \<open>Bus\<close>) is
  not modelled beyond the acceptance of its send and request. Tokio's scheduler, \<open>tracing\<close> calls and the
  \<open>Debug\<close>/\<open>Display\<close> renderings of errors are outside the model. Of the trait
  declarations at the top of \<open>receiver.rs\<close> (lines 34--139), the three a relay
  implements are records in \<open>Relay_Contract\<close> and the others records in
  \<open>Receiver_Traits\<close>, except \<open>ReceiverPollerBuilder\<close> (lines 132--134), which
  only the bus's strategies implement; \<open>ReceiverTrait::name\<close> and
  \<open>start_polling\<close> are not fields of its record (see \<open>Pollers\<close>). \<open>Receiver::name\<close> returns
  \<open>std::any::type_name\<close> of the wrapper, whose text Rust leaves unspecified;
  \<open>Receiver::new_relay\<close> wraps a relay in \<open>RelayWrapper\<close>, which is not under
  \<open>src/\<close>.
\<close>

end
